theory Spec2Isabelle
  imports Complex_Main "HOL-Library.AList" "HOL-Library.Log_Nat" "HOL-Library.Multiset"
begin

section \<open>The in-memory storage layer (server/storage.ts)\<close>

text \<open>
  \<^verbatim>\<open>MemStorage\<close> keeps three JavaScript \<^verbatim>\<open>Map\<close>s. A \<^verbatim>\<open>Map\<close> iterates in insertion order
  and \<^verbatim>\<open>set\<close> on a key that is present replaces the value in place, so a map is modelled
  as an association list: \<^verbatim>\<open>get\<close> is \<^const>\<open>map_of\<close>, \<^verbatim>\<open>set\<close> is \<^const>\<open>AList.update\<close>,
  \<^verbatim>\<open>delete\<close> is \<^const>\<open>AList.delete\<close> and \<^verbatim>\<open>Array.from(m.values())\<close> is \<open>map snd\<close>.

  A \<^verbatim>\<open>Date\<close> is its \<^verbatim>\<open>getTime()\<close> value, milliseconds as an integer. The results of
  \<^verbatim>\<open>randomUUID()\<close>, \<^verbatim>\<open>new Date()\<close> and the salt drawn by \<^verbatim>\<open>bcrypt.hash\<close> are chosen by the
  environment; every operation that draws one takes it as an argument.
\<close>

subsection \<open>Data model (shared/schema.ts)\<close>

type_synonym date = int

type_synonym ('k, 'v) jsmap = "('k \<times> 'v) list"

definition values_of :: "('k, 'v) jsmap \<Rightarrow> 'v list" where
  "values_of m = map snd m"

text \<open>\<^verbatim>\<open>User\<close>: the field \<^verbatim>\<open>id\<close> is \<open>user_id\<close> here.\<close>

record user =
  user_id :: string
  username :: string
  email :: string
  password :: string
  role :: string
  createdAt :: date
  updatedAt :: date

text \<open>\<^verbatim>\<open>InsertUser\<close>: \<^verbatim>\<open>id\<close>, \<^verbatim>\<open>createdAt\<close>, \<^verbatim>\<open>updatedAt\<close> omitted; \<^verbatim>\<open>role\<close> has a default and is optional.\<close>

record insert_user =
  iu_username :: string
  iu_email :: string
  iu_password :: string
  iu_role :: "string option"

text \<open>\<^verbatim>\<open>Partial<User>\<close>: every field optional; \<open>None\<close> is a property that is not present.\<close>

record partial_user =
  pu_id :: "string option"
  pu_username :: "string option"
  pu_email :: "string option"
  pu_password :: "string option"
  pu_role :: "string option"
  pu_createdAt :: "date option"
  pu_updatedAt :: "date option"

text \<open>\<^verbatim>\<open>ToolUsage\<close>: the field \<^verbatim>\<open>id\<close> is \<open>usage_id\<close>; nullable columns are options.\<close>

record tool_usage =
  usage_id :: string
  toolName :: string
  category :: string
  userId :: "string option"
  sessionId :: "string option"
  timestamp :: date
  processingTime :: "int option"
  fileSize :: "int option"
  success :: bool

record insert_tool_usage =
  it_toolName :: string
  it_category :: string
  it_userId :: "string option"
  it_sessionId :: "string option"
  it_processingTime :: "int option"
  it_fileSize :: "int option"
  it_success :: bool

text \<open>\<^verbatim>\<open>AdSlot\<close>: \<^verbatim>\<open>id\<close>, \<^verbatim>\<open>name\<close> and \<^verbatim>\<open>createdAt\<close> carry the prefix \<open>slot_\<close>; the \<^verbatim>\<open>jsonb\<close>
  settings are a list of key/value pairs.\<close>

record ad_slot =
  slot_id :: string
  slot_name :: string
  position :: string
  page :: string
  isActive :: bool
  adProvider :: "string option"
  adCode :: "string option"
  settings :: "(string \<times> string) list option"
  slot_createdAt :: date

record insert_ad_slot =
  ia_name :: string
  ia_position :: string
  ia_page :: string
  ia_isActive :: bool
  ia_adProvider :: "string option"
  ia_adCode :: "string option"
  ia_settings :: "(string \<times> string) list option"

record mem_storage =
  users :: "(string, user) jsmap"
  toolUsages :: "(string, tool_usage) jsmap"
  adSlots :: "(string, ad_slot) jsmap"

subsection \<open>Ad slots\<close>

definition getAdSlots :: "mem_storage \<Rightarrow> ad_slot list" where
  "getAdSlots st = values_of (adSlots st)"

definition getActiveAdSlots :: "mem_storage \<Rightarrow> string \<Rightarrow> ad_slot list" where
  "getActiveAdSlots st pg =
     filter (\<lambda>slot. page slot = pg \<and> isActive slot) (values_of (adSlots st))"

definition createAdSlot :: "mem_storage \<Rightarrow> string \<Rightarrow> date \<Rightarrow> insert_ad_slot \<Rightarrow> mem_storage \<times> ad_slot" where
  "createAdSlot st new_id now adSlot =
     (let newAdSlot = \<lparr>slot_id = new_id, slot_name = ia_name adSlot, position = ia_position adSlot,
            page = ia_page adSlot, isActive = ia_isActive adSlot, adProvider = ia_adProvider adSlot,
            adCode = ia_adCode adSlot, settings = ia_settings adSlot, slot_createdAt = now\<rparr>
      in (st\<lparr>adSlots := AList.update new_id newAdSlot (adSlots st)\<rparr>, newAdSlot))"

definition deleteAdSlot :: "mem_storage \<Rightarrow> string \<Rightarrow> mem_storage \<times> bool" where
  "deleteAdSlot st i =
     (st\<lparr>adSlots := AList.delete i (adSlots st)\<rparr>, map_of (adSlots st) i \<noteq> None)"

subsection \<open>Tool usage\<close>

text \<open>The optional argument of \<^verbatim>\<open>getToolUsage\<close>. A \<^verbatim>\<open>Date\<close> object is always truthy; a string
  is truthy unless it is empty.\<close>

record usage_filters =
  f_toolName :: "string option"
  f_category :: "string option"
  f_dateFrom :: "date option"
  f_dateTo :: "date option"

definition createToolUsage :: "mem_storage \<Rightarrow> string \<Rightarrow> date \<Rightarrow> insert_tool_usage \<Rightarrow> mem_storage \<times> tool_usage" where
  "createToolUsage st new_id now usage =
     (let toolUsage = \<lparr>usage_id = new_id, toolName = it_toolName usage, category = it_category usage,
            userId = it_userId usage, sessionId = it_sessionId usage, timestamp = now,
            processingTime = it_processingTime usage, fileSize = it_fileSize usage,
            success = it_success usage\<rparr>
      in (st\<lparr>toolUsages := AList.update new_id toolUsage (toolUsages st)\<rparr>, toolUsage))"

text \<open>\<^verbatim>\<open>usages.sort((a, b) => b.timestamp.getTime() - a.timestamp.getTime())\<close>: the sort of
  an array is stable, so the result is the stable sort by descending timestamp.\<close>

definition sort_desc :: "('a \<Rightarrow> int) \<Rightarrow> 'a list \<Rightarrow> 'a list" where
  "sort_desc f xs = sort_key (\<lambda>x. - f x) xs"

definition apply_filters :: "usage_filters \<Rightarrow> tool_usage list \<Rightarrow> tool_usage list" where
  "apply_filters filters usages0 =
     (let usages1 = (case f_toolName filters of
                       Some n \<Rightarrow> if n \<noteq> [] then filter (\<lambda>usage. toolName usage = n) usages0 else usages0
                     | None \<Rightarrow> usages0);
          usages2 = (case f_category filters of
                       Some c \<Rightarrow> if c \<noteq> [] then filter (\<lambda>usage. category usage = c) usages1 else usages1
                     | None \<Rightarrow> usages1);
          usages3 = (case f_dateFrom filters of
                       Some d \<Rightarrow> filter (\<lambda>usage. timestamp usage \<ge> d) usages2
                     | None \<Rightarrow> usages2);
          usages4 = (case f_dateTo filters of
                       Some d \<Rightarrow> filter (\<lambda>usage. timestamp usage \<le> d) usages3
                     | None \<Rightarrow> usages3)
      in usages4)"

definition getToolUsage :: "mem_storage \<Rightarrow> usage_filters option \<Rightarrow> tool_usage list" where
  "getToolUsage st filters =
     (let usages = values_of (toolUsages st);
          usages = (case filters of Some f \<Rightarrow> apply_filters f usages | None \<Rightarrow> usages)
      in sort_desc timestamp usages)"

subsection \<open>JavaScript numbers\<close>

text \<open>
  A JavaScript \<^verbatim>\<open>number\<close> is an IEEE 754 double. A finite double is a rational number, and
  \<^verbatim>\<open>x / y\<close>, \<^verbatim>\<open>x * y\<close> and \<^verbatim>\<open>x + y\<close> return the exact result rounded to the nearest double,
  ties to the even significand. \<open>to_double\<close> is that rounding for the normal range (53
  significant bits, exponent unbounded): every value that occurs below is a quotient or a
  product of integers of magnitude below \<open>2^53\<close>, far from overflow and from the subnormal
  range. \<open>ilog2 x\<close> is the exponent of a positive \<open>x\<close>, that is \<open>\<lfloor>log\<^sub>2 x\<rfloor>\<close>.
\<close>

definition round_ties_even :: "rat \<Rightarrow> int" where
  "round_ties_even x =
     (let f = \<lfloor>x\<rfloor>; d = x - of_int f
      in if d < 1/2 then f else if 1/2 < d then f + 1 else if even f then f else f + 1)"

definition ilog2 :: "rat \<Rightarrow> int" where
  "ilog2 x =
     (let (p, q) = quotient_of x;
          d = bitlen p - bitlen q
      in if 2 powi d \<le> x then d else d - 1)"

definition to_double :: "rat \<Rightarrow> rat" where
  "to_double x =
     (if x = 0 then 0
      else let e = ilog2 \<bar>x\<bar>; u = 2 powi (e - 52)
           in sgn x * of_int (round_ties_even (\<bar>x\<bar> / u)) * u)"

definition js_div :: "rat \<Rightarrow> rat \<Rightarrow> rat" where
  "js_div x y = to_double (x / y)"

definition js_mul :: "rat \<Rightarrow> rat \<Rightarrow> rat" where
  "js_mul x y = to_double (x * y)"

definition js_add :: "rat \<Rightarrow> rat \<Rightarrow> rat" where
  "js_add x y = to_double (x + y)"

text \<open>\<^verbatim>\<open>Math.round(x)\<close>: the integer closest to \<open>x\<close>, the larger one at a tie.\<close>

definition Math_round :: "rat \<Rightarrow> int" where
  "Math_round x = \<lfloor>x + 1/2\<rfloor>"

text \<open>Decimal digits of a natural number, and \<^verbatim>\<open>x.toFixed(1)\<close>: the integer \<open>n\<close> with
  \<open>n / 10\<close> closest to \<open>x\<close> (the larger one at a tie), printed with one fractional digit.\<close>

fun digits10 :: "nat \<Rightarrow> string" where
  "digits10 n =
     (if n < 10 then [char_of (48 + n)]
      else digits10 (n div 10) @ [char_of (48 + n mod 10)])"

declare digits10.simps [simp del]

definition toFixed1 :: "rat \<Rightarrow> string" where
  "toFixed1 x =
     (let s = (if x < 0 then ''-'' else []);
          n = nat \<lfloor>\<bar>x\<bar> * 10 + 1/2\<rfloor>
      in s @ digits10 (n div 10) @ ''.'' @ digits10 (n mod 10))"

subsection \<open>Analytics\<close>

text \<open>The values of \<^verbatim>\<open>toolStatsMap\<close>. The two counters are counts of array elements, below
  \<open>2^32\<close>, where \<^verbatim>\<open>++\<close> is exact: they are natural numbers. \<^verbatim>\<open>totalProcessingTime\<close> is a
  double, accumulated with \<^verbatim>\<open>+=\<close>.\<close>

record tool_acc =
  acc_name :: string
  acc_category :: string
  acc_usageCount :: nat
  acc_successCount :: nat
  acc_totalProcessingTime :: rat

text \<open>An element of \<^verbatim>\<open>toolStats\<close> (fields prefixed \<open>ts_\<close>) and the result of
  \<^verbatim>\<open>getAnalytics\<close>.\<close>

record tool_stat =
  ts_name :: string
  ts_category :: string
  ts_usageCount :: nat
  ts_successRate :: int
  ts_avgProcessingTime :: int

record analytics =
  totalUsage :: nat
  mostPopular :: string
  popularUsage :: nat
  successRate :: string
  toolStats :: "tool_stat list"

text \<open>The \<^verbatim>\<open>forEach\<close> callback: \<open>fresh_acc\<close> is the object literal used when the key is new,
  \<open>bump_acc\<close> the three updates of \<^verbatim>\<open>existing\<close>. \<^verbatim>\<open>if (usage.processingTime)\<close> is false for
  \<^verbatim>\<open>null\<close> and for \<open>0\<close>.\<close>

definition fresh_acc :: "tool_usage \<Rightarrow> tool_acc" where
  "fresh_acc usage =
     \<lparr>acc_name = toolName usage, acc_category = category usage, acc_usageCount = 0,
      acc_successCount = 0, acc_totalProcessingTime = 0\<rparr>"

definition bump_acc :: "tool_acc \<Rightarrow> tool_usage \<Rightarrow> tool_acc" where
  "bump_acc existing0 usage =
     (let existing1 = existing0\<lparr>acc_usageCount := acc_usageCount existing0 + 1\<rparr>;
          existing2 = (if success usage
                       then existing1\<lparr>acc_successCount := acc_successCount existing1 + 1\<rparr>
                       else existing1);
          existing3 = (case processingTime usage of
                         Some t \<Rightarrow>
                           if t \<noteq> 0
                           then existing2\<lparr>acc_totalProcessingTime :=
                                  js_add (acc_totalProcessingTime existing2) (of_int t)\<rparr>
                           else existing2
                       | None \<Rightarrow> existing2)
      in existing3)"

definition step_acc :: "(string, tool_acc) jsmap \<Rightarrow> tool_usage \<Rightarrow> (string, tool_acc) jsmap" where
  "step_acc toolStatsMap usage =
     (let key = toolName usage;
          existing = (case map_of toolStatsMap key of Some e \<Rightarrow> e | None \<Rightarrow> fresh_acc usage)
      in AList.update key (bump_acc existing usage) toolStatsMap)"

definition to_stat :: "tool_acc \<Rightarrow> tool_stat" where
  "to_stat stat =
     \<lparr>ts_name = acc_name stat,
      ts_category = acc_category stat,
      ts_usageCount = acc_usageCount stat,
      ts_successRate =
        (if acc_usageCount stat > 0
         then Math_round (js_mul (js_div (of_nat (acc_successCount stat))
                                         (of_nat (acc_usageCount stat))) 100)
         else 0),
      ts_avgProcessingTime =
        (if acc_usageCount stat > 0
         then Math_round (js_div (acc_totalProcessingTime stat) (of_nat (acc_usageCount stat)))
         else 0)\<rparr>"

definition getAnalytics :: "mem_storage \<Rightarrow> analytics" where
  "getAnalytics st =
     (let usages = values_of (toolUsages st)
      in if length usages = 0
         then \<lparr>totalUsage = 0, mostPopular = ''No data'', popularUsage = 0,
               successRate = ''0%'', toolStats = []\<rparr>
         else
           let totalUsage = length usages;
               successfulUsages = length (filter success usages);
               successRate =
                 (if totalUsage > 0
                  then toFixed1 (js_mul (js_div (of_nat successfulUsages) (of_nat totalUsage)) 100)
                         @ ''%''
                  else ''0%'');
               toolStatsMap = foldl step_acc [] usages;
               toolStats = sort_desc (\<lambda>s. int (ts_usageCount s))
                             (map to_stat (values_of toolStatsMap));
               mostPopular = (case toolStats of t # _ \<Rightarrow> ts_name t | [] \<Rightarrow> ''No data'');
               popularUsage = (case toolStats of t # _ \<Rightarrow> ts_usageCount t | [] \<Rightarrow> 0)
           in \<lparr>totalUsage = totalUsage, mostPopular = mostPopular, popularUsage = popularUsage,
               successRate = successRate, toolStats = toolStats\<rparr>)"

text \<open>The example scenario of the specification: three successful \<^verbatim>\<open>pdf-to-word\<close> events of
  100 ms, one failed \<^verbatim>\<open>pdf-to-word\<close> event without a processing time, one successful
  \<^verbatim>\<open>merge-pdf\<close> event of 200 ms.\<close>

definition example_inputs :: "insert_tool_usage list" where
  "example_inputs =
     (let ok = \<lparr>it_toolName = ''pdf-to-word'', it_category = ''pdf'', it_userId = None,
                it_sessionId = None, it_processingTime = Some 100, it_fileSize = None,
                it_success = True\<rparr>
      in [ok, ok, ok,
          ok\<lparr>it_processingTime := None, it_success := False\<rparr>,
          ok\<lparr>it_toolName := ''merge-pdf'', it_processingTime := Some 200\<rparr>])"

definition empty_storage :: mem_storage where
  "empty_storage = \<lparr>users = [], toolUsages = [], adSlots = []\<rparr>"

definition record_all :: "mem_storage \<Rightarrow> (string \<times> date \<times> insert_tool_usage) list \<Rightarrow> mem_storage" where
  "record_all st calls = foldl (\<lambda>s (i, now, usage). fst (createToolUsage s i now usage)) st calls"

definition example_storage :: mem_storage where
  "example_storage =
     record_all empty_storage
       (zip [''u1'', ''u2'', ''u3'', ''u4'', ''u5''] (zip [1000, 2000, 3000, 4000, 5000] example_inputs))"

text \<open>Forty events of one tool, the first 23 of them successful: \<open>100 \<times> 23 / 40 = 57.5\<close>.\<close>

definition tie_storage :: mem_storage where
  "tie_storage =
     record_all empty_storage
       (map (\<lambda>i. (''x'' @ digits10 i, int i,
                   \<lparr>it_toolName = ''X'', it_category = ''text'', it_userId = None,
                    it_sessionId = None, it_processingTime = None, it_fileSize = None,
                    it_success = (i < 23)\<rparr>))
            [0..<40])"

subsection \<open>Users and authentication\<close>

text \<open>
  \<^verbatim>\<open>bcrypt\<close> is an external library, so the operations take it as a parameter:
  \<open>bcrypt_hash lib plaintext rounds salt\<close> is the digest that \<^verbatim>\<open>bcrypt.hash(plaintext, rounds)\<close>
  returns when it draws \<open>salt\<close> (a 128-bit number), \<open>bcrypt_compare lib plaintext digest\<close> is
  \<^verbatim>\<open>bcrypt.compare(plaintext, digest)\<close>.
\<close>

record bcrypt_lib =
  bcrypt_hash :: "string \<Rightarrow> nat \<Rightarrow> nat \<Rightarrow> string"
  bcrypt_compare :: "string \<Rightarrow> string \<Rightarrow> bool"

definition getUser :: "mem_storage \<Rightarrow> string \<Rightarrow> user option" where
  "getUser st i = map_of (users st) i"

definition getUserByEmail :: "mem_storage \<Rightarrow> string \<Rightarrow> user option" where
  "getUserByEmail st e = find (\<lambda>user. email user = e) (values_of (users st))"

definition getUserByUsername :: "mem_storage \<Rightarrow> string \<Rightarrow> user option" where
  "getUserByUsername st n = find (\<lambda>user. username user = n) (values_of (users st))"

text \<open>\<^verbatim>\<open>createUser\<close>: \<open>new_id\<close> is the result of \<^verbatim>\<open>randomUUID()\<close>, \<open>now1\<close> and \<open>now2\<close> are the two
  \<^verbatim>\<open>new Date()\<close>. \<^verbatim>\<open>insertUser.role || "user"\<close> takes the default for an absent and for an
  empty role. There is no other branch: the function always stores and returns the user.\<close>

definition createUser ::
  "bcrypt_lib \<Rightarrow> mem_storage \<Rightarrow> string \<Rightarrow> nat \<Rightarrow> date \<Rightarrow> date \<Rightarrow> insert_user \<Rightarrow> mem_storage \<times> user" where
  "createUser lib st new_id salt now1 now2 insertUser =
     (let hashedPassword = bcrypt_hash lib (iu_password insertUser) 10 salt;
          user = \<lparr>user_id = new_id,
                  username = iu_username insertUser,
                  email = iu_email insertUser,
                  password = hashedPassword,
                  role = (case iu_role insertUser of
                            Some r \<Rightarrow> if r \<noteq> [] then r else ''user''
                          | None \<Rightarrow> ''user''),
                  createdAt = now1,
                  updatedAt = now2\<rparr>
      in (st\<lparr>users := AList.update new_id user (users st)\<rparr>, user))"

text \<open>\<^verbatim>\<open>updateUser\<close>: the spread \<^verbatim>\<open>{...user, ...updates, updatedAt: new Date()}\<close> takes every
  property that \<^verbatim>\<open>updates\<close> has, the password among them.\<close>

definition merge_user :: "user \<Rightarrow> partial_user \<Rightarrow> date \<Rightarrow> user" where
  "merge_user user updates now =
     \<lparr>user_id = (case pu_id updates of Some v \<Rightarrow> v | None \<Rightarrow> user_id user),
      username = (case pu_username updates of Some v \<Rightarrow> v | None \<Rightarrow> username user),
      email = (case pu_email updates of Some v \<Rightarrow> v | None \<Rightarrow> email user),
      password = (case pu_password updates of Some v \<Rightarrow> v | None \<Rightarrow> password user),
      role = (case pu_role updates of Some v \<Rightarrow> v | None \<Rightarrow> role user),
      createdAt = (case pu_createdAt updates of Some v \<Rightarrow> v | None \<Rightarrow> createdAt user),
      updatedAt = now\<rparr>"

definition updateUser :: "mem_storage \<Rightarrow> string \<Rightarrow> partial_user \<Rightarrow> date \<Rightarrow> mem_storage \<times> user option" where
  "updateUser st i updates now =
     (case map_of (users st) i of
        None \<Rightarrow> (st, None)
      | Some user \<Rightarrow>
          (let updatedUser = merge_user user updates now
           in (st\<lparr>users := AList.update i updatedUser (users st)\<rparr>, Some updatedUser)))"

definition authenticateUser :: "bcrypt_lib \<Rightarrow> mem_storage \<Rightarrow> string \<Rightarrow> string \<Rightarrow> user option" where
  "authenticateUser lib st e pw =
     (case getUserByEmail st e of
        None \<Rightarrow> None
      | Some user \<Rightarrow> if bcrypt_compare lib pw (password user) then Some user else None)"

subsection \<open>The routes that call the user operations (server/routes.ts)\<close>

text \<open>A response is \<^verbatim>\<open>res.json(x)\<close> or \<^verbatim>\<open>res.status(code).json({message})\<close>. The request body is
  taken as parsed by the route's zod schema (a parse error is the route's 400 response);
  \<open>user_response\<close> is the user without its password.\<close>

datatype 'a response = Json 'a | Status nat string

record user_response =
  r_id :: string
  r_username :: string
  r_email :: string
  r_role :: string
  r_createdAt :: date
  r_updatedAt :: date

definition without_password :: "user \<Rightarrow> user_response" where
  "without_password user =
     \<lparr>r_id = user_id user, r_username = username user, r_email = email user, r_role = role user,
      r_createdAt = createdAt user, r_updatedAt = updatedAt user\<rparr>"

text \<open>\<^verbatim>\<open>POST /api/auth/register\<close>: only \<^verbatim>\<open>username\<close>, \<^verbatim>\<open>email\<close> and \<^verbatim>\<open>password\<close> of the body reach
  \<^verbatim>\<open>createUser\<close>.\<close>

definition register_route ::
  "bcrypt_lib \<Rightarrow> mem_storage \<Rightarrow> string \<Rightarrow> nat \<Rightarrow> date \<Rightarrow> date \<Rightarrow> insert_user
     \<Rightarrow> mem_storage \<times> user_response response" where
  "register_route lib st new_id salt now1 now2 body =
     (case getUserByEmail st (iu_email body) of
        Some existingUser \<Rightarrow> (st, Status 409 ''User already exists'')
      | None \<Rightarrow>
          (let (st', user) = createUser lib st new_id salt now1 now2
                               \<lparr>iu_username = iu_username body, iu_email = iu_email body,
                                iu_password = iu_password body, iu_role = None\<rparr>
           in (st', Json (without_password user))))"

text \<open>\<^verbatim>\<open>PATCH /api/auth/profile\<close>: the schema keeps \<^verbatim>\<open>username\<close> and \<^verbatim>\<open>email\<close> only; the user id \<open>uid\<close> is
  the \<^verbatim>\<open>user-id\<close> header.\<close>

definition profile_route ::
  "mem_storage \<Rightarrow> string option \<Rightarrow> string option \<Rightarrow> string option \<Rightarrow> date
     \<Rightarrow> mem_storage \<times> user_response response" where
  "profile_route st header body_username body_email now =
     (let updates = \<lparr>pu_id = None, pu_username = body_username, pu_email = body_email,
                     pu_password = None, pu_role = None, pu_createdAt = None, pu_updatedAt = None\<rparr>
      in case header of
           None \<Rightarrow> (st, Status 401 ''Unauthorized'')
         | Some uid \<Rightarrow>
             if uid = [] then (st, Status 401 ''Unauthorized'')
             else (case updateUser st uid updates now of
                     (st', None) \<Rightarrow> (st', Status 404 ''User not found'')
                   | (st', Some updatedUser) \<Rightarrow> (st', Json (without_password updatedUser))))"

text \<open>Sequences of the two mutating user operations.\<close>

datatype user_op =
    Create string nat date date insert_user
  | Update string partial_user date

fun apply_user_op :: "bcrypt_lib \<Rightarrow> mem_storage \<Rightarrow> user_op \<Rightarrow> mem_storage" where
  "apply_user_op lib st (Create new_id salt now1 now2 insertUser) =
     fst (createUser lib st new_id salt now1 now2 insertUser)"
| "apply_user_op lib st (Update i updates now) = fst (updateUser st i updates now)"

definition run_user_ops :: "bcrypt_lib \<Rightarrow> mem_storage \<Rightarrow> user_op list \<Rightarrow> mem_storage" where
  "run_user_ops lib st ops = foldl (apply_user_op lib) st ops"

fun sets_password :: "user_op \<Rightarrow> bool" where
  "sets_password (Create _ _ _ _ _) = False"
| "sets_password (Update _ updates _) = (pu_password updates \<noteq> None)"

text \<open>A stored password is a digest when \<^verbatim>\<open>bcrypt.hash\<close> with cost 10 returns it for some
  plaintext and salt.\<close>

definition is_digest :: "bcrypt_lib \<Rightarrow> string \<Rightarrow> bool" where
  "is_digest lib d = (\<exists>p salt. d = bcrypt_hash lib p 10 salt)"

definition stores_digests :: "bcrypt_lib \<Rightarrow> mem_storage \<Rightarrow> bool" where
  "stores_digests lib st = list_all (\<lambda>user. is_digest lib (password user)) (values_of (users st))"

text \<open>Modelled from the spec: \<^verbatim>\<open>bcrypt\<close> itself is not part of the repository. Section 4.2 of
  the specification asks of it that \<^verbatim>\<open>hash\<close> salts the digest and that \<^verbatim>\<open>verify(plaintext, digest)\<close>
  is true iff the digest was produced from the plaintext. \<open>ideal_bcrypt\<close> is the simplest
  library with that contract (the digest is the salt in unary, a separator and the
  plaintext); it only serves to run the operations on concrete inputs.\<close>

definition ideal_bcrypt :: bcrypt_lib where
  "ideal_bcrypt =
     \<lparr>bcrypt_hash = (\<lambda>plaintext rounds salt. replicate salt (CHR ''s'') @ CHR ''$'' # plaintext),
      bcrypt_compare = (\<lambda>plaintext digest.
         dropWhile (\<lambda>c. c = CHR ''s'') digest = CHR ''$'' # plaintext)\<rparr>"

text \<open>What authentication relies on: \<^verbatim>\<open>bcrypt.compare\<close> accepts the plaintext a digest was
  made from. Nothing is assumed about other plaintexts: \<^verbatim>\<open>bcrypt\<close> accepts some of them, since
  it hashes the first 72 bytes of the plaintext only.\<close>

definition bcrypt_accepts_own :: "bcrypt_lib \<Rightarrow> bool" where
  "bcrypt_accepts_own lib = (\<forall>p salt. bcrypt_compare lib p (bcrypt_hash lib p 10 salt))"

text \<open>\<open>truncating_bcrypt\<close> is \<open>ideal_bcrypt\<close> with that limit of \<^verbatim>\<open>bcrypt\<close>: digest and comparison
  read the first 72 bytes of the plaintext (a \<open>char\<close> is a byte).\<close>

definition truncating_bcrypt :: bcrypt_lib where
  "truncating_bcrypt =
     \<lparr>bcrypt_hash = (\<lambda>plaintext rounds salt.
         replicate salt (CHR ''s'') @ CHR ''$'' # take 72 plaintext),
      bcrypt_compare = (\<lambda>plaintext digest.
         dropWhile (\<lambda>c. c = CHR ''s'') digest = CHR ''$'' # take 72 plaintext)\<rparr>"

text \<open>A registration input whose password has 73 bytes, the store that holds this one
  user, and another password with the same first 72 bytes.\<close>

definition carol :: insert_user where
  "carol = \<lparr>iu_username = ''carol'', iu_email = ''carol@example.com'',
            iu_password = replicate 72 (CHR ''a'') @ ''1'', iu_role = None\<rparr>"

definition carol_storage :: mem_storage where
  "carol_storage = fst (createUser truncating_bcrypt empty_storage ''id-3'' 7 1000 1000 carol)"

definition other_long_password :: string where
  "other_long_password = replicate 72 (CHR ''a'') @ ''2''"

text \<open>A registration input and the store that holds this one user.\<close>

definition alice :: insert_user where
  "alice = \<lparr>iu_username = ''alice'', iu_email = ''alice@example.com'',
            iu_password = ''correct horse'', iu_role = None\<rparr>"

definition one_user_storage :: mem_storage where
  "one_user_storage = fst (createUser ideal_bcrypt empty_storage ''id-1'' 3 1000 1000 alice)"

text \<open>Updates that carry one field only.\<close>

definition no_updates :: partial_user where
  "no_updates = \<lparr>pu_id = None, pu_username = None, pu_email = None, pu_password = None,
                 pu_role = None, pu_createdAt = None, pu_updatedAt = None\<rparr>"

subsection \<open>Notions used to state the properties\<close>

text \<open>The tool-usage events in iteration order, the events of one tool, and the tool names
  in the order of their first occurrence.\<close>

definition events :: "mem_storage \<Rightarrow> tool_usage list" where
  "events st = values_of (toolUsages st)"

definition group_of :: "string \<Rightarrow> tool_usage list \<Rightarrow> tool_usage list" where
  "group_of n us = filter (\<lambda>usage. toolName usage = n) us"

definition usage_count :: "string \<Rightarrow> tool_usage list \<Rightarrow> nat" where
  "usage_count n us = length (group_of n us)"

definition success_count :: "string \<Rightarrow> tool_usage list \<Rightarrow> nat" where
  "success_count n us = length (filter success (group_of n us))"

primrec first_occurrences :: "'a list \<Rightarrow> 'a list" where
  "first_occurrences [] = []"
| "first_occurrences (x # xs) = x # filter (\<lambda>y. y \<noteq> x) (first_occurrences xs)"

text \<open>The processing times that are present, their sum, and the sum of their magnitudes
  (which bounds every partial sum that \<^verbatim>\<open>totalProcessingTime\<close> goes through).\<close>

definition present_times :: "tool_usage list \<Rightarrow> int list" where
  "present_times us = List.map_filter processingTime us"

definition timed_sum :: "tool_usage list \<Rightarrow> int" where
  "timed_sum us = sum_list (present_times us)"

definition timed_magnitude :: "tool_usage list \<Rightarrow> int" where
  "timed_magnitude us = sum_list (map abs (present_times us))"

text \<open>Rounding of the exact quotient \<open>a / n\<close> to the nearest integer, halves upwards.\<close>

definition round_quotient :: "int \<Rightarrow> nat \<Rightarrow> int" where
  "round_quotient a n = \<lfloor>(of_int a :: rat) / of_nat n + 1/2\<rfloor>"

text \<open>The average processing time as the specification words it: the rounded mean over the
  events of the group that carry a processing time.\<close>

definition claimed_avgProcessingTime :: "tool_usage list \<Rightarrow> int" where
  "claimed_avgProcessingTime g =
     (if present_times g = [] then 0
      else round_quotient (sum_list (present_times g)) (length (present_times g)))"

text \<open>Whether an event passes the filters: as \<^verbatim>\<open>getToolUsage\<close> applies them (an empty string
  is no filter), and as the specification words it (every supplied filter constrains).\<close>

definition effective_matches :: "usage_filters \<Rightarrow> tool_usage \<Rightarrow> bool" where
  "effective_matches f usage =
     ((case f_toolName f of Some n \<Rightarrow> n = [] \<or> toolName usage = n | None \<Rightarrow> True) \<and>
      (case f_category f of Some c \<Rightarrow> c = [] \<or> category usage = c | None \<Rightarrow> True) \<and>
      (case f_dateFrom f of Some d \<Rightarrow> d \<le> timestamp usage | None \<Rightarrow> True) \<and>
      (case f_dateTo f of Some d \<Rightarrow> timestamp usage \<le> d | None \<Rightarrow> True))"

definition claimed_matches :: "usage_filters \<Rightarrow> tool_usage \<Rightarrow> bool" where
  "claimed_matches f usage =
     ((case f_toolName f of Some n \<Rightarrow> toolName usage = n | None \<Rightarrow> True) \<and>
      (case f_category f of Some c \<Rightarrow> category usage = c | None \<Rightarrow> True) \<and>
      (case f_dateFrom f of Some d \<Rightarrow> d \<le> timestamp usage | None \<Rightarrow> True) \<and>
      (case f_dateTo f of Some d \<Rightarrow> timestamp usage \<le> d | None \<Rightarrow> True))"

text \<open>What the \<^verbatim>\<open>forEach\<close> of \<^verbatim>\<open>getAnalytics\<close> leaves in \<^verbatim>\<open>toolStatsMap\<close> under a tool name: the
  accumulator created at the first event of the tool and updated by each of its events.\<close>

definition tool_entry :: "tool_usage list \<Rightarrow> string \<Rightarrow> tool_acc" where
  "tool_entry us k =
     (case group_of k us of
        [] \<Rightarrow> \<lparr>acc_name = k, acc_category = [], acc_usageCount = 0, acc_successCount = 0,
               acc_totalProcessingTime = 0\<rparr>
      | u0 # g \<Rightarrow> foldl bump_acc (fresh_acc u0) (u0 # g))"

text \<open>The three default ad slots of \<^verbatim>\<open>initializeDefaultAdSlots\<close>, followed by a home-page slot
  that is switched off.\<close>

definition defaultSlots :: "insert_ad_slot list" where
  "defaultSlots =
     [\<lparr>ia_name = ''Home Page Top Banner'', ia_position = ''home-top'', ia_page = ''home'',
       ia_isActive = True, ia_adProvider = Some ''google-adsense'',
       ia_adCode = Some ''<!-- Google AdSense code here -->'',
       ia_settings = Some [(''size'', ''728x90'')]\<rparr>,
      \<lparr>ia_name = ''PDF Tools Banner'', ia_position = ''pdf-tools-top'', ia_page = ''pdf-tools'',
       ia_isActive = True, ia_adProvider = Some ''google-adsense'',
       ia_adCode = Some ''<!-- Google AdSense code here -->'',
       ia_settings = Some [(''size'', ''728x90'')]\<rparr>,
      \<lparr>ia_name = ''Tool Interface Top'', ia_position = ''tool-top'', ia_page = ''universal-tool'',
       ia_isActive = True, ia_adProvider = Some ''google-adsense'',
       ia_adCode = Some ''<!-- Google AdSense code here -->'',
       ia_settings = Some [(''size'', ''728x90'')]\<rparr>]"

definition ad_storage :: mem_storage where
  "ad_storage =
     foldl (\<lambda>s (i, slot). fst (createAdSlot s i 1000 slot)) empty_storage
       (zip [''a1'', ''a2'', ''a3'', ''a4'']
            (defaultSlots @ [\<lparr>ia_name = ''Home Footer'', ia_position = ''footer'', ia_page = ''home'',
                               ia_isActive = False, ia_adProvider = None, ia_adCode = None,
                               ia_settings = None\<rparr>]))"

text \<open>Two events that differ in the tool name only, one of them with the empty name.\<close>

definition blank_usage :: insert_tool_usage where
  "blank_usage =
     \<lparr>it_toolName = [], it_category = ''text'', it_userId = None, it_sessionId = None,
      it_processingTime = None, it_fileSize = None, it_success = True\<rparr>"

definition blank_name_storage :: mem_storage where
  "blank_name_storage =
     record_all empty_storage
       [(''b1'', 1000, blank_usage), (''b2'', 1000, blank_usage\<lparr>it_toolName := ''word-counter''\<rparr>)]"

definition no_filters :: usage_filters where
  "no_filters = \<lparr>f_toolName = None, f_category = None, f_dateFrom = None, f_dateTo = None\<rparr>"

section \<open>Properties\<close>

subsection \<open>Sorting and filtering\<close>

lemma sorted_sort_desc: "sorted_wrt (\<lambda>a b. f b \<le> f a) (sort_desc f xs)"
proof -
  have "sorted (map (\<lambda>x. - f x) (sort_key (\<lambda>x. - f x) xs))"
    by (rule sorted_sort_key)
  then show ?thesis
    by (simp add: sort_desc_def sorted_map)
qed

lemma set_sort_desc [simp]: "set (sort_desc f xs) = set xs"
  by (simp add: sort_desc_def)

lemma mset_sort_desc [simp]: "mset (sort_desc f xs) = mset xs"
  by (simp add: sort_desc_def)

lemma sort_desc_stable: "filter (\<lambda>x. f x = k) (sort_desc f xs) = filter (\<lambda>x. f x = k) xs"
  using sort_key_stable[of "\<lambda>x. - f x" "- k" xs] by (simp add: sort_desc_def)

lemma apply_filters_eq: "apply_filters f us = filter (effective_matches f) us"
  by (auto simp: apply_filters_def effective_matches_def Let_def split: option.splits
      intro!: filter_cong)

subsection \<open>Ad slots\<close>

text \<open>
  C9. For every ad-slot collection and every page, \<^verbatim>\<open>getActiveAdSlots(page)\<close> returns exactly
  the slots whose page equals the argument and that are active, in the order of the
  collection: the same elements with the same multiplicities, none of another page and
  none that is inactive.
\<close>

theorem getActiveAdSlots_exact:
  "getActiveAdSlots st pg = filter (\<lambda>slot. page slot = pg \<and> isActive slot) (getAdSlots st) \<and>
   set (getActiveAdSlots st pg) = {slot \<in> set (getAdSlots st). page slot = pg \<and> isActive slot} \<and>
   mset (getActiveAdSlots st pg) =
     filter_mset (\<lambda>slot. page slot = pg \<and> isActive slot) (mset (getAdSlots st))"
  by (simp add: getActiveAdSlots_def getAdSlots_def)

text \<open>Of the four slots of \<open>ad_storage\<close>, two are on the home page and one of these is
  active.\<close>

theorem getActiveAdSlots_exact_witness:
  "map (\<lambda>slot. (slot_id slot, page slot, isActive slot)) (getAdSlots ad_storage) =
     [(''a1'', ''home'', True), (''a2'', ''pdf-tools'', True), (''a3'', ''universal-tool'', True),
      (''a4'', ''home'', False)] \<and>
   map slot_id (getActiveAdSlots ad_storage ''home'') = [''a1'']"
proof -
  have a: "map (\<lambda>slot. (slot_id slot, page slot, isActive slot)) (getAdSlots ad_storage) =
     [(''a1'', ''home'', True), (''a2'', ''pdf-tools'', True), (''a3'', ''universal-tool'', True),
      (''a4'', ''home'', False)]"
    by code_simp
  have b: "map slot_id (filter (\<lambda>slot. page slot = ''home'' \<and> isActive slot) (getAdSlots ad_storage))
             = [''a1'']"
    by code_simp
  have "map slot_id (getActiveAdSlots ad_storage ''home'') = [''a1'']"
    using getActiveAdSlots_exact[of ad_storage "''home''", THEN conjunct1] b by simp
  with a show ?thesis by (intro conjI)
qed

subsection \<open>Listing tool usage\<close>

text \<open>
  C4, as the code has it. For every event collection and every filter object,
  \<^verbatim>\<open>getToolUsage\<close> returns exactly the records that satisfy every filter that is supplied
  and, for \<^verbatim>\<open>toolName\<close> and \<^verbatim>\<open>category\<close>, is not the empty string (\<open>effective_matches\<close>), each
  as often as it is stored, ordered by timestamp descending, records of equal timestamp
  in the order of the collection; without a filter object it returns all records in that
  order.
\<close>

theorem getToolUsage_filtered:
  "getToolUsage st (Some f) =
     sort_desc timestamp (filter (effective_matches f) (values_of (toolUsages st))) \<and>
   getToolUsage st None = sort_desc timestamp (values_of (toolUsages st)) \<and>
   set (getToolUsage st (Some f)) =
     {usage \<in> set (values_of (toolUsages st)). effective_matches f usage} \<and>
   mset (getToolUsage st (Some f)) =
     filter_mset (effective_matches f) (mset (values_of (toolUsages st))) \<and>
   sorted_wrt (\<lambda>a b. timestamp b \<le> timestamp a) (getToolUsage st (Some f)) \<and>
   filter (\<lambda>usage. timestamp usage = t) (getToolUsage st (Some f)) =
     filter (\<lambda>usage. timestamp usage = t) (filter (effective_matches f) (values_of (toolUsages st)))"
  by (simp add: getToolUsage_def apply_filters_eq sorted_sort_desc sort_desc_stable)

text \<open>In the example scenario, the \<^verbatim>\<open>pdf-to-word\<close> events of category \<^verbatim>\<open>pdf\<close> from time 2000
  on are the second, third and fourth event, listed latest first.\<close>

theorem getToolUsage_filtered_witness:
  "map usage_id (getToolUsage example_storage
       (Some \<lparr>f_toolName = Some ''pdf-to-word'', f_category = Some ''pdf'',
              f_dateFrom = Some 2000, f_dateTo = None\<rparr>)) = [''u4'', ''u3'', ''u2'']"
proof -
  have e: "map usage_id (sort_desc timestamp (filter
       (effective_matches \<lparr>f_toolName = Some ''pdf-to-word'', f_category = Some ''pdf'',
              f_dateFrom = Some 2000, f_dateTo = None\<rparr>)
       (values_of (toolUsages example_storage)))) = [''u4'', ''u3'', ''u2'']"
    by code_simp
  show ?thesis
    using getToolUsage_filtered[of example_storage "\<lparr>f_toolName = Some ''pdf-to-word'',
        f_category = Some ''pdf'', f_dateFrom = Some 2000, f_dateTo = None\<rparr>", THEN conjunct1] e
    by simp
qed

text \<open>C4 as stated fails: with the filter \<^verbatim>\<open>{toolName: ""}\<close> supplied, no event of the example
  scenario has that tool name (\<open>claimed_matches\<close> holds of none), and \<^verbatim>\<open>getToolUsage\<close>
  returns all five.\<close>

theorem getToolUsage_supplied_empty_counterexample:
  "filter (claimed_matches (no_filters\<lparr>f_toolName := Some []\<rparr>)) (values_of (toolUsages example_storage)) = [] \<and>
   map usage_id (getToolUsage example_storage (Some (no_filters\<lparr>f_toolName := Some []\<rparr>)))
     = [''u5'', ''u4'', ''u3'', ''u2'', ''u1'']"
  by code_simp

text \<open>
  C10. For every event collection, a filter object whose \<^verbatim>\<open>toolName\<close> (or \<^verbatim>\<open>category\<close>) is the
  empty string gives the same result as the filter object without that field. Hence no
  filter selects only the records with an empty tool name: whenever a result contains a
  record with the empty tool name, it contains every stored record of the same category
  and timestamp, whatever its tool name (and likewise for the category).
\<close>

theorem getToolUsage_empty_string:
  "getToolUsage st (Some (f\<lparr>f_toolName := Some []\<rparr>)) = getToolUsage st (Some (f\<lparr>f_toolName := None\<rparr>)) \<and>
   getToolUsage st (Some (f\<lparr>f_category := Some []\<rparr>)) = getToolUsage st (Some (f\<lparr>f_category := None\<rparr>)) \<and>
   (\<forall>u v. u \<in> set (getToolUsage st (Some f)) \<and> toolName u = [] \<and>
          v \<in> set (values_of (toolUsages st)) \<and> category v = category u \<and> timestamp v = timestamp u
          \<longrightarrow> v \<in> set (getToolUsage st (Some f))) \<and>
   (\<forall>u v. u \<in> set (getToolUsage st (Some f)) \<and> category u = [] \<and>
          v \<in> set (values_of (toolUsages st)) \<and> toolName v = toolName u \<and> timestamp v = timestamp u
          \<longrightarrow> v \<in> set (getToolUsage st (Some f)))"
proof (intro conjI allI impI)
  show "getToolUsage st (Some (f\<lparr>f_toolName := Some []\<rparr>)) = getToolUsage st (Some (f\<lparr>f_toolName := None\<rparr>))"
    by (simp add: getToolUsage_def apply_filters_def)
  show "getToolUsage st (Some (f\<lparr>f_category := Some []\<rparr>)) = getToolUsage st (Some (f\<lparr>f_category := None\<rparr>))"
    by (simp add: getToolUsage_def apply_filters_def)
next
  fix u v
  assume "u \<in> set (getToolUsage st (Some f)) \<and> toolName u = [] \<and>
          v \<in> set (values_of (toolUsages st)) \<and> category v = category u \<and> timestamp v = timestamp u"
  then show "v \<in> set (getToolUsage st (Some f))"
    by (auto simp: getToolUsage_def apply_filters_eq effective_matches_def split: option.splits)
next
  fix u v
  assume "u \<in> set (getToolUsage st (Some f)) \<and> category u = [] \<and>
          v \<in> set (values_of (toolUsages st)) \<and> toolName v = toolName u \<and> timestamp v = timestamp u"
  then show "v \<in> set (getToolUsage st (Some f))"
    by (auto simp: getToolUsage_def apply_filters_eq effective_matches_def split: option.splits)
qed

text \<open>In \<open>blank_name_storage\<close> the filter \<^verbatim>\<open>{toolName: ""}\<close> returns the event with the empty
  name, and with it the \<^verbatim>\<open>word-counter\<close> event.\<close>

theorem getToolUsage_empty_string_witness:
  "snd (createToolUsage empty_storage ''b1'' 1000 blank_usage)
     \<in> set (getToolUsage blank_name_storage (Some (no_filters\<lparr>f_toolName := Some []\<rparr>))) \<and>
   toolName (snd (createToolUsage empty_storage ''b1'' 1000 blank_usage)) = [] \<and>
   toolName (snd (createToolUsage empty_storage ''b2'' 1000 (blank_usage\<lparr>it_toolName := ''word-counter''\<rparr>)))
     = ''word-counter'' \<and>
   snd (createToolUsage empty_storage ''b2'' 1000 (blank_usage\<lparr>it_toolName := ''word-counter''\<rparr>))
     \<in> set (getToolUsage blank_name_storage (Some (no_filters\<lparr>f_toolName := Some []\<rparr>)))"
proof -
  have h: "snd (createToolUsage empty_storage ''b1'' 1000 blank_usage)
       \<in> set (getToolUsage blank_name_storage (Some (no_filters\<lparr>f_toolName := Some []\<rparr>))) \<and>
     toolName (snd (createToolUsage empty_storage ''b1'' 1000 blank_usage)) = [] \<and>
     snd (createToolUsage empty_storage ''b2'' 1000 (blank_usage\<lparr>it_toolName := ''word-counter''\<rparr>))
       \<in> set (values_of (toolUsages blank_name_storage)) \<and>
     category (snd (createToolUsage empty_storage ''b2'' 1000 (blank_usage\<lparr>it_toolName := ''word-counter''\<rparr>)))
       = category (snd (createToolUsage empty_storage ''b1'' 1000 blank_usage)) \<and>
     timestamp (snd (createToolUsage empty_storage ''b2'' 1000 (blank_usage\<lparr>it_toolName := ''word-counter''\<rparr>)))
       = timestamp (snd (createToolUsage empty_storage ''b1'' 1000 blank_usage))"
    by code_simp
  have n: "toolName (snd (createToolUsage empty_storage ''b2'' 1000 (blank_usage\<lparr>it_toolName := ''word-counter''\<rparr>)))
     = ''word-counter''"
    by code_simp
  note t = getToolUsage_empty_string[of blank_name_storage "no_filters\<lparr>f_toolName := Some []\<rparr>",
      THEN conjunct2, THEN conjunct2, THEN conjunct1, rule_format, OF h]
  from h[THEN conjunct1] h[THEN conjunct2, THEN conjunct1] n t show ?thesis by (intro conjI)
qed

subsection \<open>Analytics of an empty collection\<close>

text \<open>
  C7. When the tool-usage collection is empty, \<^verbatim>\<open>getAnalytics\<close> returns the zero-state result:
  \<^verbatim>\<open>totalUsage\<close> 0, \<^verbatim>\<open>mostPopular\<close> "No data", \<^verbatim>\<open>popularUsage\<close> 0, \<^verbatim>\<open>successRate\<close> "0%" and an empty
  \<^verbatim>\<open>toolStats\<close> list.
\<close>

theorem getAnalytics_empty:
  "getAnalytics (st\<lparr>toolUsages := []\<rparr>) =
     \<lparr>totalUsage = 0, mostPopular = ''No data'', popularUsage = 0, successRate = ''0%'', toolStats = []\<rparr>"
  by (simp add: getAnalytics_def values_of_def)

subsection \<open>Rounding to a double\<close>

text \<open>The exponent that \<open>ilog2\<close> computes from the bit lengths of numerator and
  denominator is the exponent of the number; rounding to 53 bits changes a number by at
  most its magnitude divided by \<open>2 ^ 53\<close>, and leaves integers and halves of integers
  of magnitude below \<open>2 ^ 53\<close> as they are.\<close>

lemma bitlen_powi:
  assumes "0 < p"
  shows "(2::rat) powi (bitlen p - 1) \<le> of_int p" "of_int p < (2::rat) powi (bitlen p)"
proof -
  have b: "2 ^ nat (bitlen p - 1) \<le> p" "p < 2 ^ nat (bitlen p)"
    using bitlen_bounds[OF assms] by auto
  have ge1: "1 \<le> bitlen p"
    using assms bitlen_eq_zero_iff[of p] bitlen_nonneg[of p] by linarith
  have "(of_int (2 ^ nat (bitlen p - 1)) :: rat) \<le> of_int p"
    using b(1) of_int_le_iff by blast
  then show "(2::rat) powi (bitlen p - 1) \<le> of_int p"
    using ge1 by (simp add: power_int_def)
  have "(of_int p :: rat) < of_int (2 ^ nat (bitlen p))"
    using b(2) of_int_less_iff by blast
  then show "of_int p < (2::rat) powi (bitlen p)"
    using ge1 by (simp add: power_int_def)
qed

lemma ilog2_bounds:
  assumes "0 < x"
  shows "2 powi (ilog2 x) \<le> x" "x < 2 powi (ilog2 x + 1)"
proof -
  obtain p q where pq: "quotient_of x = (p, q)" by (cases "quotient_of x")
  have q: "0 < q" using pq quotient_of_denom_pos by blast
  have x: "x = of_int p / of_int q" using pq quotient_of_div by blast
  have p: "0 < p" using assms q x by (simp add: zero_less_divide_iff)
  define d where "d = bitlen p - bitlen q"
  have lo: "2 powi (d - 1) < x"
  proof -
    have "2 powi (d - 1) = (2::rat) powi (bitlen p - 1) / 2 powi (bitlen q)"
      by (simp add: d_def power_int_diff)
    also have "\<dots> \<le> of_int p / 2 powi (bitlen q)"
      using bitlen_powi(1)[OF p] by (simp add: divide_right_mono)
    also have "\<dots> < of_int p / of_int q"
      using bitlen_powi(2)[OF q] p q by (simp add: divide_strict_left_mono)
    finally show ?thesis using x by simp
  qed
  have hi: "x < 2 powi (d + 1)"
  proof -
    have "x = of_int p / of_int q" by (rule x)
    also have "\<dots> < 2 powi (bitlen p) / of_int q"
      using bitlen_powi(2)[OF p] q by (simp add: divide_strict_right_mono)
    also have "\<dots> \<le> 2 powi (bitlen p) / 2 powi (bitlen q - 1)"
      using bitlen_powi(1)[OF q] q by (simp add: divide_left_mono)
    also have "\<dots> = 2 powi (d + 1)"
      by (simp add: d_def power_int_diff power_int_add)
    finally show ?thesis .
  qed
  have e: "ilog2 x = (if 2 powi d \<le> x then d else d - 1)"
    by (simp add: ilog2_def pq d_def Let_def)
  show "2 powi (ilog2 x) \<le> x" using lo e by auto
  show "x < 2 powi (ilog2 x + 1)" using hi e by auto
qed


lemma round_ties_even_err: "\<bar>of_int (round_ties_even y) - y\<bar> \<le> 1/2"
proof -
  have "of_int \<lfloor>y\<rfloor> \<le> y" "y < of_int \<lfloor>y\<rfloor> + 1" by linarith+
  then show ?thesis
    unfolding round_ties_even_def Let_def by auto
qed

lemma round_ties_even_of_int [simp]: "round_ties_even (of_int z) = z"
  by (simp add: round_ties_even_def)

lemma to_double_err: "\<bar>to_double x - x\<bar> \<le> \<bar>x\<bar> / 2 ^ 53"
proof (cases "x = 0")
  case True
  then show ?thesis by (simp add: to_double_def)
next
  case False
  define e where "e = ilog2 \<bar>x\<bar>"
  define u :: rat where "u = 2 powi (e - 52)"
  define y where "y = \<bar>x\<bar> / u"
  have u: "0 < u" by (simp add: u_def)
  have td: "to_double x = sgn x * of_int (round_ties_even y) * u"
    using False by (simp add: to_double_def Let_def e_def u_def y_def)
  have x: "x = sgn x * y * u"
    using u by (simp add: y_def sgn_mult_abs)
  have "to_double x - x = sgn x * (of_int (round_ties_even y) - y) * u"
    by (subst x) (simp add: td algebra_simps)
  then have "\<bar>to_double x - x\<bar> = \<bar>of_int (round_ties_even y) - y\<bar> * u"
    using False u by (simp add: abs_mult abs_sgn_eq)
  also have "\<dots> \<le> 1/2 * u"
    using round_ties_even_err[of y] u by (simp add: mult_right_mono)
  also have "\<dots> = 2 powi e / 2 ^ 53"
    by (simp add: u_def power_int_diff)
  also have "\<dots> \<le> \<bar>x\<bar> / 2 ^ 53"
    using ilog2_bounds(1)[of "\<bar>x\<bar>"] False by (simp add: e_def divide_right_mono)
  finally show ?thesis .
qed

lemma to_double_exact:
  assumes "\<bar>m\<bar> < 2 ^ 53"
  shows "to_double (of_int m / 2 ^ j) = of_int m / 2 ^ j"
proof (cases "m = 0")
  case True
  then show ?thesis by (simp add: to_double_def)
next
  case False
  define x :: rat where "x = of_int m / 2 ^ j"
  define e where "e = ilog2 \<bar>x\<bar>"
  define u :: rat where "u = 2 powi (e - 52)"
  have x0: "x \<noteq> 0" using False by (simp add: x_def)
  have u: "0 < u" by (simp add: u_def)
  have ax: "\<bar>x\<bar> = of_int \<bar>m\<bar> / 2 ^ j" by (simp add: x_def)
  have "(of_int \<bar>m\<bar> :: rat) < of_int (2 ^ 53)"
    using assms of_int_less_iff by blast
  then have "\<bar>x\<bar> < 2 ^ 53 / 2 ^ j"
    unfolding ax by (simp add: divide_strict_right_mono)
  also have "\<dots> = 2 powi (53 - int j)"
    by (simp add: power_int_diff)
  finally have "2 powi e < (2::rat) powi (53 - int j)"
    using ilog2_bounds(1)[of "\<bar>x\<bar>"] x0 by (simp add: e_def)
  then have elt: "e < 53 - int j"
    using power_int_increasing[of "53 - int j" e "2::rat"] by (cases "e < 53 - int j") auto
  define n where "n = nat (52 - int j - e)"
  have n: "int n = 52 - int j - e" using elt by (simp add: n_def)
  have "(2::rat) ^ n * 2 powi (e - 52) = 2 powi (int n + (e - 52))"
    by (simp add: power_int_add)
  also have "int n + (e - 52) = - int j" using n by simp
  also have "(2::rat) powi (- int j) = 1 / 2 ^ j"
    by (simp add: power_int_minus field_simps)
  finally have k: "2 ^ n * u = 1 / 2 ^ j" by (simp add: u_def)
  have bk: "of_int (\<bar>m\<bar> * 2 ^ n) * u = \<bar>x\<bar>"
    using k by (simp add: ax mult.assoc)
  then have "\<bar>x\<bar> / u = of_int (\<bar>m\<bar> * 2 ^ n)"
    using u by (simp add: field_simps)
  then have "round_ties_even (\<bar>x\<bar> / u) = \<bar>m\<bar> * 2 ^ n"
    by (simp only: round_ties_even_of_int)
  with bk have "of_int (round_ties_even (\<bar>x\<bar> / u)) * u = \<bar>x\<bar>"
    by simp
  then have "to_double x = sgn x * \<bar>x\<bar>"
    using x0 by (simp add: to_double_def Let_def e_def[symmetric] u_def[symmetric] mult.assoc)
  then show ?thesis by (simp add: x_def[symmetric] sgn_mult_abs)
qed

subsection \<open>\<^verbatim>\<open>Math.round\<close> of a quotient and of a percentage\<close>

lemma near_round:
  fixes a n :: int and y :: rat
  assumes n: "0 < n" and close: "\<bar>y - of_int a / of_int n\<bar> < 1 / (2 * of_int n)"
  shows "2 * \<bar>Math_round y * n - a\<bar> \<le> n"
proof -
  define r where "r = Math_round y"
  have n': "(0::rat) < of_int n" using n by simp
  have fl: "of_int r \<le> y + 1/2" "y + 1/2 < of_int r + 1"
    unfolding r_def Math_round_def by linarith+
  have k1: "of_int a / of_int n * (2 * of_int n) = (2 * of_int a :: rat)"
    and k2: "1 / (2 * of_int n) * (2 * of_int n) = (1::rat)"
    using n' by simp_all
  have "(y - of_int a / of_int n) * (2 * of_int n)
          = y * (2 * of_int n) - of_int a / of_int n * (2 * of_int n)"
    by (rule left_diff_distrib)
  also have "\<dots> = y * (2 * of_int n) - 2 * of_int a" by (simp only: k1)
  also have "\<dots> = 2 * of_int n * y - 2 * of_int a" by (simp add: mult.commute)
  finally have sc: "(y - of_int a / of_int n) * (2 * of_int n) = 2 * of_int n * y - 2 * of_int a" .
  from close have "y - of_int a / of_int n < 1 / (2 * of_int n)"
    and "- (y - of_int a / of_int n) < 1 / (2 * of_int n)"
    by (simp_all add: abs_less_iff)
  then have "(y - of_int a / of_int n) * (2 * of_int n) < 1 / (2 * of_int n) * (2 * of_int n)"
    and "- (y - of_int a / of_int n) * (2 * of_int n) < 1 / (2 * of_int n) * (2 * of_int n)"
    using n' by (simp_all only: mult_strict_right_mono mult_pos_pos zero_less_numeral)
  then have c: "\<bar>2 * of_int n * y - 2 * of_int a\<bar> < 1"
    unfolding k2 mult_minus_left sc by (simp add: abs_less_iff)
  have "of_int r * (2 * of_int n) \<le> (y + 1/2) * (2 * of_int n)"
    using fl(1) n' by (intro mult_right_mono) auto
  then have l: "2 * of_int n * of_int r \<le> 2 * of_int n * y + of_int n"
    by (simp add: algebra_simps)
  have "(y + 1/2) * (2 * of_int n) < (of_int r + 1) * (2 * of_int n)"
    using fl(2) n' by (intro mult_strict_right_mono) auto
  then have u: "2 * of_int n * y + of_int n < 2 * of_int n * of_int r + 2 * of_int n"
    by (simp add: algebra_simps)
  have "(of_int (2 * n * r - n - 2 * a) :: rat) < of_int 1"
    using l c by (simp add: abs_less_iff)
  then have 1: "2 * n * r - n - 2 * a < 1" by (simp only: of_int_less_iff)
  have "(of_int (-1) :: rat) < of_int (2 * n * r + n - 2 * a)"
    using u c by (simp add: abs_less_iff)
  then have 2: "-1 < 2 * n * r + n - 2 * a" by (simp only: of_int_less_iff)
  define z where "z = r * n"
  have "2 * z - n - 2 * a < 1" "-1 < 2 * z + n - 2 * a"
    using 1 2 by (simp_all add: z_def mult.commute mult.left_commute)
  then have "2 * \<bar>z - a\<bar> \<le> n" by presburger
  then show ?thesis
    by (simp add: z_def r_def)
qed

lemma near_round_exact:
  fixes a n :: int and y :: rat
  assumes n: "0 < n" and close: "\<bar>y - of_int a / of_int n\<bar> < 1 / (2 * of_int n)"
    and notie: "(2 * a + n) mod (2 * n) \<noteq> 0"
  shows "Math_round y = (2 * a + n) div (2 * n)"
proof -
  define r where "r = Math_round y"
  have b: "2 * \<bar>r * n - a\<bar> \<le> n"
    using near_round[OF n close] by (simp add: r_def)
  have ne: "2 * a + n \<noteq> (2 * n) * (r + 1)"
    using notie by (metis mod_mult_self1_is_0)
  define z where "z = r * n"
  have z: "2 * n * r = 2 * z" by (simp add: z_def)
  have "2 * \<bar>z - a\<bar> \<le> n" using b by (simp add: z_def)
  then have bz: "2 * (z - a) \<le> n \<and> 2 * (a - z) \<le> n"
    by presburger
  have "(2 * a + n) div (2 * n) = r"
  proof (rule int_div_pos_eq)
    show "2 * a + n = 2 * n * r + (2 * a + n - 2 * n * r)" by simp
    show "0 \<le> 2 * a + n - 2 * n * r" unfolding z using bz by presburger
    have "2 * a + n \<noteq> 2 * z + 2 * n" using ne by (simp add: z_def algebra_simps)
    then show "2 * a + n - 2 * n * r < 2 * n" unfolding z using bz by presburger
  qed
  then show ?thesis by (simp add: r_def)
qed

lemma round_div_exact:
  fixes T :: int and N :: nat
  assumes N: "0 < N" and small: "2 * \<bar>T\<bar> < 2 ^ 53"
  shows "Math_round (js_div (of_int T) (of_nat N)) = (2 * T + int N) div (2 * int N)"
proof (cases "(2 * T + int N) mod (2 * int N) = 0")
  case True
  define k where "k = (2 * T + int N) div (2 * int N)"
  have k: "2 * T + int N = 2 * int N * k"
    using True unfolding k_def by (metis dvd_mult_div_cancel mod_eq_0_iff_dvd)
  then have T2: "2 * T = int N * (2 * k - 1)" by (simp add: algebra_simps)
  have "(of_int (2 * T) :: rat) = of_int (int N * (2 * k - 1))" using T2 by simp
  then have x: "(of_int T :: rat) / of_nat N = of_int (2 * k - 1) / 2 ^ 1"
    using N by (simp add: field_simps)
  have "\<bar>2 * k - 1\<bar> \<le> int N * \<bar>2 * k - 1\<bar>"
    using N by (simp add: mult_le_cancel_right1)
  also have "\<dots> = \<bar>int N * (2 * k - 1)\<bar>" by (simp add: abs_mult)
  also have "\<dots> = \<bar>2 * T\<bar>" using T2 by simp
  also have "\<dots> = 2 * \<bar>T\<bar>" by (simp add: abs_mult)
  finally have "\<bar>2 * k - 1\<bar> < 2 ^ 53" using small by simp
  then have "js_div (of_int T) (of_nat N) = of_int (2 * k - 1) / 2 ^ 1"
    unfolding js_div_def x by (rule to_double_exact)
  then have "Math_round (js_div (of_int T) (of_nat N)) = k"
    by (simp add: Math_round_def diff_divide_distrib)
  then show ?thesis by (simp add: k_def)
next
  case False
  define x :: rat where "x = of_int T / of_int (int N)"
  have N': "(0::rat) < of_nat N" using N by simp
  have "\<bar>to_double x - x\<bar> \<le> \<bar>x\<bar> / 2 ^ 53" by (rule to_double_err)
  also have "\<bar>x\<bar> / 2 ^ 53 = (of_int (2 * \<bar>T\<bar>) / 2 ^ 53) * (1 / (2 * of_nat N))"
    using N' by (simp add: x_def)
  also have "\<dots> < 1 * (1 / (2 * of_nat N))"
  proof (rule mult_strict_right_mono)
    have "(of_int (2 * \<bar>T\<bar>) :: rat) < of_int (2 ^ 53)"
      using small by (simp only: of_int_less_iff)
    then show "(of_int (2 * \<bar>T\<bar>) :: rat) / 2 ^ 53 < 1" by simp
    show "(0::rat) < 1 / (2 * of_nat N)" using N' by simp
  qed
  finally have "\<bar>to_double x - of_int T / of_int (int N)\<bar> < 1 / (2 * of_int (int N))"
    by (simp add: x_def)
  then have "Math_round (to_double x) = (2 * T + int N) div (2 * int N)"
    using N False by (intro near_round_exact) auto
  then show ?thesis by (simp add: js_div_def x_def)
qed

lemma percent_close:
  fixes S N :: nat
  assumes N: "0 < N" and SN: "S \<le> N" and small: "N < 2 ^ 32"
  shows "\<bar>js_mul (js_div (of_nat S) (of_nat N)) 100 - of_int (100 * int S) / of_int (int N)\<bar>
           < 1 / (2 * of_int (int N))"
proof -
  define q :: rat where "q = of_nat S / of_nat N"
  define d where "d = to_double q"
  define p where "p = d * 100"
  have N': "(0::rat) < of_nat N" using N by simp
  have q: "0 \<le> q" "q \<le> 1"
    using N' SN by (simp_all add: q_def)
  have e1: "\<bar>d - q\<bar> \<le> 1 / 2 ^ 53"
  proof -
    have "\<bar>d - q\<bar> \<le> \<bar>q\<bar> / 2 ^ 53" unfolding d_def by (rule to_double_err)
    also have "\<dots> \<le> 1 / 2 ^ 53" using q by (simp add: divide_right_mono)
    finally show ?thesis .
  qed
  moreover have "(1::rat) / 2 ^ 53 \<le> 1" by simp
  ultimately have dabs: "\<bar>d\<bar> \<le> 2" using q by linarith
  have e2: "\<bar>to_double p - p\<bar> \<le> 200 / 2 ^ 53"
  proof -
    have "\<bar>to_double p - p\<bar> \<le> \<bar>p\<bar> / 2 ^ 53" by (rule to_double_err)
    also have "\<dots> \<le> 200 / 2 ^ 53" using dabs by (simp add: p_def abs_mult divide_right_mono)
    finally show ?thesis .
  qed
  have e3: "\<bar>p - 100 * q\<bar> \<le> 100 / 2 ^ 53"
  proof -
    have "p - 100 * q = 100 * (d - q)" by (simp add: p_def algebra_simps)
    then have "\<bar>p - 100 * q\<bar> = \<bar>100 * (d - q)\<bar>" by (rule arg_cong)
    also have "\<dots> = \<bar>100\<bar> * \<bar>d - q\<bar>" by (rule abs_mult)
    also have "\<dots> = 100 * \<bar>d - q\<bar>" by simp
    also have "\<dots> \<le> 100 * (1 / 2 ^ 53)" using e1 by (intro mult_left_mono) auto
    finally show ?thesis by simp
  qed
  have "to_double p - 100 * q = (to_double p - p) + (p - 100 * q)" by simp
  then have "\<bar>to_double p - 100 * q\<bar> \<le> \<bar>to_double p - p\<bar> + \<bar>p - 100 * q\<bar>"
    by (simp only: abs_triangle_ineq)
  also have "\<dots> \<le> 200 / 2 ^ 53 + 100 / 2 ^ 53"
    by (intro add_mono e2 e3)
  also have "\<dots> < 1 / 2 ^ 33" by simp
  also have "(1::rat) / 2 ^ 33 \<le> 1 / (2 * of_nat N)"
  proof -
    have "2 * N \<le> 2 ^ 33" using small by simp
    then have "(of_nat (2 * N) :: rat) \<le> of_nat (2 ^ 33)" by (simp only: of_nat_le_iff)
    then have "(2 * of_nat N :: rat) \<le> 2 ^ 33" by simp
    then show ?thesis using N' by (intro divide_left_mono) auto
  qed
  finally show ?thesis
    by (simp add: js_mul_def js_div_def p_def d_def q_def mult.commute)
qed

subsection \<open>The grouping loop of \<^verbatim>\<open>getAnalytics\<close>\<close>

lemma set_first_occurrences [simp]: "set (first_occurrences xs) = set xs"
  by (induction xs) auto

lemma distinct_first_occurrences [simp]: "distinct (first_occurrences xs)"
  by (induction xs) auto

lemma keys_step_acc:
  "map fst (step_acc m u) =
     (if toolName u \<in> set (map fst m) then map fst m else map fst m @ [toolName u])"
  by (simp add: step_acc_def Let_def update_keys)

lemma lookup_step_acc:
  "map_of (step_acc m u) k =
     (if k = toolName u
      then Some (bump_acc (case map_of m k of Some e \<Rightarrow> e | None \<Rightarrow> fresh_acc u) u)
      else map_of m k)"
  by (simp add: step_acc_def Let_def update_conv')

lemma keys_foldl_step_acc:
  "map fst (foldl step_acc m us) =
     map fst m @ filter (\<lambda>k. k \<notin> set (map fst m)) (first_occurrences (map toolName us))"
proof (induction us arbitrary: m)
  case Nil
  then show ?case by simp
next
  case (Cons u us)
  show ?case
  proof (cases "toolName u \<in> set (map fst m)")
    case True
    then have "filter (\<lambda>k. k \<notin> set (map fst m)) (filter (\<lambda>y. y \<noteq> toolName u) (first_occurrences (map toolName us)))
             = filter (\<lambda>k. k \<notin> set (map fst m)) (first_occurrences (map toolName us))"
      by (auto intro!: filter_cong)
    with True show ?thesis
      by (simp add: Cons.IH keys_step_acc)
  next
    case False
    have "filter (\<lambda>k. k \<notin> set (map fst m @ [toolName u])) (first_occurrences (map toolName us))
        = filter (\<lambda>k. k \<notin> set (map fst m)) (filter (\<lambda>y. y \<noteq> toolName u) (first_occurrences (map toolName us)))"
      by (auto intro!: filter_cong)
    with False show ?thesis
      by (simp add: Cons.IH keys_step_acc)
  qed
qed

lemma lookup_foldl_step_acc:
  "map_of (foldl step_acc m us) k =
     (case group_of k us of
        [] \<Rightarrow> map_of m k
      | u0 # g \<Rightarrow> Some (foldl bump_acc (case map_of m k of Some e \<Rightarrow> e | None \<Rightarrow> fresh_acc u0) (u0 # g)))"
proof (induction us arbitrary: m)
  case Nil
  then show ?case by (simp add: group_of_def)
next
  case (Cons u us)
  show ?case
  proof (cases "toolName u = k")
    case True
    then have g: "group_of k (u # us) = u # group_of k us" by (simp add: group_of_def)
    show ?thesis
      unfolding g using True
      by (simp add: Cons.IH lookup_step_acc split: list.splits)
  next
    case False
    then have g: "group_of k (u # us) = group_of k us" by (simp add: group_of_def)
    have e: "map_of (step_acc m u) k = map_of m k"
      using False by (auto simp: lookup_step_acc)
    show ?thesis
      unfolding g by (simp add: Cons.IH e split: list.splits)
  qed
qed

lemma alist_by_keys:
  "map fst al = ks \<Longrightarrow> distinct ks \<Longrightarrow> (\<forall>k\<in>set ks. map_of al k = Some (f k))
     \<Longrightarrow> al = map (\<lambda>k. (k, f k)) ks"
proof (induction al arbitrary: ks)
  case Nil
  then show ?case by simp
next
  case (Cons p al)
  obtain k v where p: "p = (k, v)" by (cases p)
  from Cons.prems(1) p obtain ks' where ks: "ks = k # ks'" "map fst al = ks'" by auto
  from Cons.prems(2) ks have d: "k \<notin> set ks'" "distinct ks'" by auto
  have v: "v = f k" using Cons.prems(3) p ks by simp
  have "map_of al k' = Some (f k')" if "k' \<in> set ks'" for k'
  proof -
    from that d have "k' \<noteq> k" by auto
    moreover have "map_of (p # al) k' = Some (f k')"
      using Cons.prems(3) that ks(1) by simp
    ultimately show ?thesis using p by simp
  qed
  then have "\<forall>k'\<in>set ks'. map_of al k' = Some (f k')" by blast
  then have "al = map (\<lambda>k. (k, f k)) ks'"
    using Cons.IH[OF ks(2) d(2)] by simp
  then show ?case using p ks v by simp
qed

lemma foldl_step_acc_eq:
  "foldl step_acc [] us = map (\<lambda>k. (k, tool_entry us k)) (first_occurrences (map toolName us))"
proof (rule alist_by_keys)
  show "map fst (foldl step_acc [] us) = first_occurrences (map toolName us)"
    by (simp add: keys_foldl_step_acc)
  show "distinct (first_occurrences (map toolName us))" by simp
  show "\<forall>k\<in>set (first_occurrences (map toolName us)). map_of (foldl step_acc [] us) k = Some (tool_entry us k)"
  proof
    fix k assume "k \<in> set (first_occurrences (map toolName us))"
    then have "group_of k us \<noteq> []"
      by (auto simp: group_of_def filter_empty_conv)
    then show "map_of (foldl step_acc [] us) k = Some (tool_entry us k)"
      by (simp add: lookup_foldl_step_acc tool_entry_def split: list.splits)
  qed
qed

lemma foldl_bump_acc_fields:
  "acc_name (foldl bump_acc e g) = acc_name e"
  "acc_category (foldl bump_acc e g) = acc_category e"
  "acc_usageCount (foldl bump_acc e g) = acc_usageCount e + length g"
  "acc_successCount (foldl bump_acc e g) = acc_successCount e + length (filter success g)"
  by (induction g arbitrary: e; simp add: bump_acc_def Let_def split: option.splits)+

lemma foldl_bump_acc_total:
  "\<bar>z\<bar> + timed_magnitude g < 2 ^ 53 \<Longrightarrow> acc_totalProcessingTime e = of_int z
     \<Longrightarrow> acc_totalProcessingTime (foldl bump_acc e g) = of_int (z + timed_sum g)"
proof (induction g arbitrary: e z)
  case Nil
  then show ?case by (simp add: timed_sum_def present_times_def map_filter_simps)
next
  case (Cons u g)
  show ?case
  proof (cases "processingTime u")
    case None
    then have "timed_magnitude (u # g) = timed_magnitude g" "timed_sum (u # g) = timed_sum g"
      by (simp_all add: timed_magnitude_def timed_sum_def present_times_def map_filter_simps)
    moreover have "acc_totalProcessingTime (bump_acc e u) = of_int z"
      using None Cons.prems(2) by (simp add: bump_acc_def Let_def)
    ultimately show ?thesis using Cons.prems(1) Cons.IH[of z "bump_acc e u"] by simp
  next
    case (Some t)
    then have m: "timed_magnitude (u # g) = \<bar>t\<bar> + timed_magnitude g"
      and s: "timed_sum (u # g) = t + timed_sum g"
      by (simp_all add: timed_magnitude_def timed_sum_def present_times_def map_filter_simps)
    have nn: "0 \<le> timed_magnitude g"
      unfolding timed_magnitude_def by (rule sum_list_nonneg) auto
    have "\<bar>z + t\<bar> < 2 ^ 53" using Cons.prems(1) m nn by linarith
    then have "to_double (of_int (z + t) / 2 ^ 0) = of_int (z + t) / 2 ^ 0"
      by (rule to_double_exact)
    then have "js_add (of_int z) (of_int t) = of_int (z + t)"
      by (simp add: js_add_def)
    then have b: "acc_totalProcessingTime (bump_acc e u) = of_int (z + t)"
      using Some Cons.prems(2) by (simp add: bump_acc_def Let_def)
    have "\<bar>z + t\<bar> + timed_magnitude g < 2 ^ 53" using Cons.prems(1) m by linarith
    from Cons.IH[OF this b] show ?thesis using s by (simp add: add.assoc)
  qed
qed

lemma round_quotient_div: "0 < n \<Longrightarrow> round_quotient a n = (2 * a + int n) div (2 * int n)"
proof -
  assume n: "0 < n"
  have "(of_int a :: rat) / of_nat n + 1/2 = of_int (2 * a + int n) / of_int (2 * int n)"
    using n by (simp add: field_simps)
  then show ?thesis
    unfolding round_quotient_def by (simp only: floor_divide_of_int_eq)
qed

lemma tool_entry_fields:
  assumes "k \<in> toolName ` set us"
  shows "acc_name (tool_entry us k) = k"
    and "acc_usageCount (tool_entry us k) = length (group_of k us)"
    and "acc_successCount (tool_entry us k) = length (filter success (group_of k us))"
    and "timed_magnitude (group_of k us) < 2 ^ 53 \<Longrightarrow>
           acc_totalProcessingTime (tool_entry us k) = of_int (timed_sum (group_of k us))"
proof -
  from assms have "group_of k us \<noteq> []"
    by (auto simp: group_of_def filter_empty_conv)
  then obtain u0 g where g: "group_of k us = u0 # g" by (cases "group_of k us") auto
  then have "u0 \<in> set (group_of k us)" by simp
  then have k: "toolName u0 = k" by (simp add: group_of_def)
  have te: "tool_entry us k = foldl bump_acc (fresh_acc u0) (u0 # g)"
    by (simp add: tool_entry_def g)
  show "acc_name (tool_entry us k) = k"
    unfolding te by (simp only: foldl_bump_acc_fields) (simp add: fresh_acc_def k)
  show "acc_usageCount (tool_entry us k) = length (group_of k us)"
    unfolding te g by (simp only: foldl_bump_acc_fields) (simp add: fresh_acc_def)
  show "acc_successCount (tool_entry us k) = length (filter success (group_of k us))"
    unfolding te g by (simp only: foldl_bump_acc_fields) (simp add: fresh_acc_def)
  show "acc_totalProcessingTime (tool_entry us k) = of_int (timed_sum (group_of k us))"
    if "timed_magnitude (group_of k us) < 2 ^ 53"
    unfolding te g[symmetric]
    using foldl_bump_acc_total[of 0 "group_of k us" "fresh_acc u0"] that
    by (simp add: fresh_acc_def)
qed

lemma timed_magnitude_Cons:
  "timed_magnitude (u # us) =
     (case processingTime u of Some t \<Rightarrow> \<bar>t\<bar> | None \<Rightarrow> 0) + timed_magnitude us"
  by (simp add: timed_magnitude_def present_times_def map_filter_simps split: option.splits)

lemma timed_magnitude_filter: "timed_magnitude (filter P us) \<le> timed_magnitude us"
proof (induction us)
  case Nil
  then show ?case by simp
next
  case (Cons u us)
  have "0 \<le> (case processingTime u of Some t \<Rightarrow> \<bar>t\<bar> | None \<Rightarrow> 0)"
    by (simp split: option.splits)
  then show ?case using Cons.IH by (simp add: timed_magnitude_Cons)
qed

lemma getAnalytics_nonempty:
  assumes "events st \<noteq> []"
  shows "toolStats (getAnalytics st) =
           sort_desc (\<lambda>s. int (ts_usageCount s))
             (map (\<lambda>k. to_stat (tool_entry (events st) k))
                  (first_occurrences (map toolName (events st))))"
    and "mostPopular (getAnalytics st) =
           (case toolStats (getAnalytics st) of t # _ \<Rightarrow> ts_name t | [] \<Rightarrow> ''No data'')"
    and "popularUsage (getAnalytics st) =
           (case toolStats (getAnalytics st) of t # _ \<Rightarrow> ts_usageCount t | [] \<Rightarrow> 0)"
    and "totalUsage (getAnalytics st) = length (events st)"
  using assms
  by (simp_all add: getAnalytics_def events_def[symmetric] Let_def foldl_step_acc_eq
        values_of_def[of "map _ _"] comp_def)

lemma toolStats_member:
  assumes "s \<in> set (toolStats (getAnalytics st))"
  shows "events st \<noteq> []"
    and "ts_name s \<in> toolName ` set (events st)"
    and "s = to_stat (tool_entry (events st) (ts_name s))"
proof -
  show ne: "events st \<noteq> []"
    using assms by (auto simp: getAnalytics_def events_def Let_def)
  from assms obtain k where k: "k \<in> toolName ` set (events st)"
    "s = to_stat (tool_entry (events st) k)"
    unfolding getAnalytics_nonempty(1)[OF ne] by auto
  then have "ts_name s = k"
    by (simp add: to_stat_def tool_entry_fields(1))
  with k show "ts_name s \<in> toolName ` set (events st)"
    "s = to_stat (tool_entry (events st) (ts_name s))" by simp_all
qed

lemma usage_count_filter_le: "usage_count k us \<le> length us"
  by (simp add: usage_count_def group_of_def)

lemma success_count_le: "success_count k us \<le> usage_count k us"
  by (simp add: usage_count_def success_count_def)

lemma to_stat_tool_entry:
  assumes "k \<in> toolName ` set us"
  shows "ts_name (to_stat (tool_entry us k)) = k"
    and "ts_usageCount (to_stat (tool_entry us k)) = usage_count k us"
    and "ts_successRate (to_stat (tool_entry us k)) =
           (if 0 < usage_count k us
            then Math_round (js_mul (js_div (of_nat (success_count k us)) (of_nat (usage_count k us))) 100)
            else 0)"
  by (simp_all add: to_stat_def tool_entry_fields[OF assms] usage_count_def success_count_def)


subsection \<open>Tool statistics\<close>

text \<open>
  C5. For every non-empty event collection, \<^verbatim>\<open>toolStats\<close> is sorted by \<^verbatim>\<open>usageCount\<close> descending;
  it has one entry per tool name, whose \<^verbatim>\<open>usageCount\<close> is the number of events of that tool;
  the entries of equal \<^verbatim>\<open>usageCount\<close> stand in the order in which their tools first occur
  in the collection; and \<^verbatim>\<open>mostPopular\<close> and \<^verbatim>\<open>popularUsage\<close> are the name and the \<^verbatim>\<open>usageCount\<close>
  of the first entry.
\<close>

theorem toolStats_sorted_stable:
  assumes "events st \<noteq> []"
  shows "sorted_wrt (\<lambda>a b. ts_usageCount b \<le> ts_usageCount a) (toolStats (getAnalytics st)) \<and>
         mset (map ts_name (toolStats (getAnalytics st)))
           = mset (first_occurrences (map toolName (events st))) \<and>
         (\<forall>s\<in>set (toolStats (getAnalytics st)). ts_usageCount s = usage_count (ts_name s) (events st)) \<and>
         (\<forall>c. map ts_name (filter (\<lambda>s. ts_usageCount s = c) (toolStats (getAnalytics st)))
                = filter (\<lambda>k. usage_count k (events st) = c) (first_occurrences (map toolName (events st)))) \<and>
         (\<exists>t rest. toolStats (getAnalytics st) = t # rest \<and>
                    mostPopular (getAnalytics st) = ts_name t \<and>
                    popularUsage (getAnalytics st) = ts_usageCount t)"
proof -
  define us where "us = events st"
  define fo where "fo = first_occurrences (map toolName us)"
  define F where "F = (\<lambda>k. to_stat (tool_entry us k))"
  define ts where "ts = toolStats (getAnalytics st)"
  have ts: "ts = sort_desc (\<lambda>s. int (ts_usageCount s)) (map F fo)"
    using getAnalytics_nonempty(1)[OF assms] by (simp add: ts_def F_def fo_def us_def)
  have fo: "k \<in> toolName ` set us" if "k \<in> set fo" for k
    using that by (simp add: fo_def)
  have nm: "ts_name (F k) = k" and uc: "ts_usageCount (F k) = usage_count k us" if "k \<in> set fo" for k
    using to_stat_tool_entry[OF fo[OF that]] by (simp_all add: F_def)
  have a: "sorted_wrt (\<lambda>a b. ts_usageCount b \<le> ts_usageCount a) ts"
    using sorted_sort_desc[of "\<lambda>s. int (ts_usageCount s)" "map F fo"] by (simp add: ts)
  have "map ts_name (map F fo) = fo"
    using nm by (simp add: map_idI)
  then have b: "mset (map ts_name ts) = mset fo"
    by (metis mset_map mset_sort_desc ts)
  have c: "\<forall>s\<in>set ts. ts_usageCount s = usage_count (ts_name s) us"
    using nm uc by (auto simp: ts)
  have d: "map ts_name (filter (\<lambda>s. ts_usageCount s = c) ts) = filter (\<lambda>k. usage_count k us = c) fo" for c
  proof -
    have "filter (\<lambda>s. ts_usageCount s = c) ts = filter (\<lambda>s. int (ts_usageCount s) = int c) ts"
      by simp
    also have "\<dots> = filter (\<lambda>s. int (ts_usageCount s) = int c) (map F fo)"
      unfolding ts by (rule sort_desc_stable)
    also have "\<dots> = map F (filter (\<lambda>k. usage_count k us = c) fo)"
      using uc by (simp add: filter_map comp_def cong: filter_cong)
    finally show ?thesis
      using nm by (auto intro!: map_idI)
  qed
  have "fo \<noteq> []"
    using assms by (cases us) (simp_all add: fo_def us_def)
  then have "ts \<noteq> []"
    using b by auto
  then obtain t rest where tr: "ts = t # rest" by (cases ts) auto
  have e: "mostPopular (getAnalytics st) = ts_name t" "popularUsage (getAnalytics st) = ts_usageCount t"
    using getAnalytics_nonempty(2,3)[OF assms] tr by (simp_all add: ts_def)
  from a b c d tr e show ?thesis
    unfolding ts_def fo_def us_def by blast
qed

text \<open>The example scenario: \<^verbatim>\<open>pdf-to-word\<close> with four events precedes \<^verbatim>\<open>merge-pdf\<close> with one.\<close>

theorem toolStats_sorted_stable_witness:
  "events example_storage \<noteq> [] \<and>
   map (\<lambda>s. (ts_name s, ts_usageCount s)) (toolStats (getAnalytics example_storage))
     = [(''pdf-to-word'', 4), (''merge-pdf'', 1)] \<and>
   mostPopular (getAnalytics example_storage) = ''pdf-to-word'' \<and>
   popularUsage (getAnalytics example_storage) = 4"
proof -
  have h: "events example_storage \<noteq> []" by code_simp
  have v: "map (\<lambda>s. (ts_name s, ts_usageCount s)) (toolStats (getAnalytics example_storage))
     = [(''pdf-to-word'', 4), (''merge-pdf'', 1)]"
    by code_simp
  from toolStats_sorted_stable[OF h, THEN conjunct2, THEN conjunct2, THEN conjunct2, THEN conjunct2]
  obtain t rest where tr: "toolStats (getAnalytics example_storage) = t # rest"
    and m: "mostPopular (getAnalytics example_storage) = ts_name t"
    and p: "popularUsage (getAnalytics example_storage) = ts_usageCount t"
    by blast
  from v have "ts_name t = ''pdf-to-word''" "ts_usageCount t = 4"
    unfolding tr by simp_all
  with h v m p show ?thesis by simp
qed

text \<open>
  C6, as the code has it. For every collection of fewer than \<open>2^32\<close> events (the bound on
  the length of an array) that holds \<open>N > 0\<close> events of tool \<open>X\<close>, \<open>S\<close> of them successful,
  \<^verbatim>\<open>toolStats\<close> has an entry for \<open>X\<close> with \<^verbatim>\<open>usageCount\<close> \<open>N\<close> whose \<^verbatim>\<open>successRate\<close> is an integer
  nearest to \<open>100 S / N\<close> (it differs from it by at most one half), and is
  \<open>100 S / N\<close> rounded half up whenever \<open>100 S / N\<close> is not exactly halfway between two
  integers.
\<close>

theorem successRate_nearest_percent:
  assumes "0 < usage_count X (events st)" and "length (events st) < 2 ^ 32"
  shows "\<exists>s\<in>set (toolStats (getAnalytics st)).
           ts_name s = X \<and>
           ts_usageCount s = usage_count X (events st) \<and>
           2 * \<bar>ts_successRate s * int (usage_count X (events st)) - 100 * int (success_count X (events st))\<bar>
             \<le> int (usage_count X (events st)) \<and>
           ((200 * int (success_count X (events st)) + int (usage_count X (events st)))
               mod (2 * int (usage_count X (events st))) \<noteq> 0
            \<longrightarrow> ts_successRate s = round_quotient (100 * int (success_count X (events st)))
                                                     (usage_count X (events st)))"
proof -
  define us where "us = events st"
  define N where "N = usage_count X us"
  define S where "S = success_count X us"
  define s where "s = to_stat (tool_entry us X)"
  have N: "0 < N" using assms(1) by (simp add: N_def us_def)
  then have X: "X \<in> toolName ` set us"
    by (auto simp: N_def usage_count_def group_of_def filter_empty_conv)
  then have ne: "events st \<noteq> []" by (auto simp: us_def)
  have mem: "s \<in> set (toolStats (getAnalytics st))"
    using X by (simp add: getAnalytics_nonempty(1)[OF ne] s_def us_def)
  have SN: "S \<le> N" by (simp add: S_def N_def success_count_le)
  have "N \<le> length us" unfolding N_def by (rule usage_count_filter_le)
  then have N32: "N < 2 ^ 32"
    using assms(2) unfolding us_def by (rule le_less_trans)
  have f: "ts_name s = X" "ts_usageCount s = N"
    "ts_successRate s = Math_round (js_mul (js_div (of_nat S) (of_nat N)) 100)"
    using to_stat_tool_entry[OF X] N by (simp_all add: s_def N_def S_def)
  have N': "0 < int N" using N by simp
  note close = percent_close[OF N SN N32]
  have r1: "2 * \<bar>ts_successRate s * int N - 100 * int S\<bar> \<le> int N"
    unfolding f(3) using near_round[OF N' close] .
  have r2: "(200 * int S + int N) mod (2 * int N) \<noteq> 0
              \<longrightarrow> ts_successRate s = round_quotient (100 * int S) N"
  proof
    assume "(200 * int S + int N) mod (2 * int N) \<noteq> 0"
    then have "(2 * (100 * int S) + int N) mod (2 * int N) \<noteq> 0" by simp
    from near_round_exact[OF N' close this]
    have "ts_successRate s = (2 * (100 * int S) + int N) div (2 * int N)"
      unfolding f(3) .
    also have "\<dots> = round_quotient (100 * int S) N"
      using N by (simp only: round_quotient_div)
    finally show "ts_successRate s = round_quotient (100 * int S) N" .
  qed
  show ?thesis
  proof (rule bexI[OF _ mem])
    from f(1,2) r1 r2
    show "ts_name s = X \<and>
           ts_usageCount s = usage_count X (events st) \<and>
           2 * \<bar>ts_successRate s * int (usage_count X (events st)) - 100 * int (success_count X (events st))\<bar>
             \<le> int (usage_count X (events st)) \<and>
           ((200 * int (success_count X (events st)) + int (usage_count X (events st)))
               mod (2 * int (usage_count X (events st))) \<noteq> 0
            \<longrightarrow> ts_successRate s = round_quotient (100 * int (success_count X (events st)))
                                                     (usage_count X (events st)))"
      unfolding N_def S_def us_def by (intro conjI)
  qed
qed

text \<open>The example scenario: three of the four \<^verbatim>\<open>pdf-to-word\<close> events succeed, and 75 is not
  a tie.\<close>

theorem successRate_nearest_percent_witness:
  "0 < usage_count ''pdf-to-word'' (events example_storage) \<and>
   length (events example_storage) < 2 ^ 32 \<and>
   usage_count ''pdf-to-word'' (events example_storage) = 4 \<and>
   success_count ''pdf-to-word'' (events example_storage) = 3 \<and>
   (\<exists>s. s \<in> set (toolStats (getAnalytics example_storage)) \<and> ts_name s = ''pdf-to-word'' \<and>
        ts_usageCount s = 4 \<and> ts_successRate s = 75)"
proof -
  have c1: "usage_count ''pdf-to-word'' (events example_storage) = 4" by code_simp
  have c2: "success_count ''pdf-to-word'' (events example_storage) = 3" by code_simp
  have l: "length (events example_storage) = 5" by code_simp
  have h1: "0 < usage_count ''pdf-to-word'' (events example_storage)" unfolding c1 by simp
  have h2: "length (events example_storage) < 2 ^ 32" unfolding l by simp
  have r: "round_quotient (100 * int 3) 4 = 75" by (simp add: round_quotient_div)
  have m: "(200 * int 3 + int 4) mod (2 * int 4) \<noteq> 0" by simp
  note t = successRate_nearest_percent[OF h1 h2, unfolded c1 c2]
  from t have "\<exists>s. s \<in> set (toolStats (getAnalytics example_storage)) \<and> ts_name s = ''pdf-to-word'' \<and>
        ts_usageCount s = 4 \<and> ts_successRate s = 75"
  proof (elim bexE conjE)
    fix s
    assume s: "s \<in> set (toolStats (getAnalytics example_storage))"
      and n: "ts_name s = ''pdf-to-word''"
      and u: "ts_usageCount s = 4"
      and e: "(200 * int 3 + int 4) mod (2 * int 4) \<noteq> 0
                \<longrightarrow> ts_successRate s = round_quotient (100 * int 3) 4"
    from e m have "ts_successRate s = round_quotient (100 * int 3) 4" by (rule mp)
    then have "ts_successRate s = 75" by (simp only: r)
    with s n u show ?thesis by (intro exI[of _ s] conjI)
  qed
  with h1 h2 c1 c2 show ?thesis by (intro conjI)
qed

text \<open>C6 as stated fails at a tie. In \<open>tie_storage\<close> 23 of the 40 events of \<open>X\<close> succeed:
  \<open>100 \<times> 23 / 40\<close> is 57.5, which rounds to 58. The code computes \<^verbatim>\<open>(23 / 40) * 100\<close> in
  doubles: \<^verbatim>\<open>23 / 40\<close> is the double just below 0.575, the product is
  57.49999999999999 and \<^verbatim>\<open>Math.round\<close> gives 57.\<close>

theorem successRate_tie_counterexample:
  "usage_count ''X'' (events tie_storage) = 40 \<and>
   success_count ''X'' (events tie_storage) = 23 \<and>
   round_quotient (100 * 23) 40 = 58 \<and>
   js_mul (js_div 23 40) 100 = 115 / 2 - 1 / 2 ^ 47 \<and>
   map (\<lambda>s. (ts_name s, ts_usageCount s, ts_successRate s)) (toolStats (getAnalytics tie_storage))
     = [(''X'', 40, 57)]"
proof -
  have 1: "usage_count ''X'' (events tie_storage) = 40" by code_simp
  have 2: "success_count ''X'' (events tie_storage) = 23" by code_simp
  have 3: "round_quotient (100 * 23) 40 = 58" by code_simp
  have 4: "js_mul (js_div 23 40) 100 = 115 / 2 - 1 / 2 ^ 47" by code_simp
  have 5: "map (\<lambda>s. (ts_name s, ts_usageCount s, ts_successRate s)) (toolStats (getAnalytics tie_storage))
     = [(''X'', 40, 57)]"
    by code_simp
  from 1 2 3 4 5 show ?thesis by (intro conjI)
qed

text \<open>
  C1, as the code has it. Provided the magnitudes of all processing times add up to less
  than \<open>2^52\<close> (so that \<^verbatim>\<open>totalProcessingTime\<close> is exact), the \<^verbatim>\<open>avgProcessingTime\<close> of every
  entry of \<^verbatim>\<open>toolStats\<close> is the sum of the processing times that the events of the group
  carry, divided by the number of all events of the group (its \<^verbatim>\<open>usageCount\<close>), rounded
  half up: an event without a processing time adds nothing to the sum and counts in the
  divisor.
\<close>

theorem avgProcessingTime_over_all_events:
  assumes "s \<in> set (toolStats (getAnalytics st))"
    and "2 * timed_magnitude (events st) < 2 ^ 53"
  shows "ts_avgProcessingTime s =
           round_quotient (timed_sum (group_of (ts_name s) (events st)))
                          (usage_count (ts_name s) (events st))"
proof -
  define k where "k = ts_name s"
  define g where "g = group_of k (events st)"
  have k: "k \<in> toolName ` set (events st)" and s: "s = to_stat (tool_entry (events st) k)"
    using toolStats_member[OF assms(1)] by (simp_all add: k_def)
  have "g \<noteq> []" using k by (auto simp: g_def group_of_def filter_empty_conv)
  then have N: "0 < length g" by simp
  have nn: "0 \<le> timed_magnitude g"
    unfolding timed_magnitude_def by (rule sum_list_nonneg) auto
  have mg: "2 * timed_magnitude g < 2 ^ 53"
    using timed_magnitude_filter[of "\<lambda>usage. toolName usage = k" "events st"] assms(2)
    by (simp add: g_def group_of_def)
  have "\<bar>timed_sum g\<bar> \<le> timed_magnitude g"
    unfolding timed_sum_def timed_magnitude_def by (rule sum_list_abs)
  then have small: "2 * \<bar>timed_sum g\<bar> < 2 ^ 53" using mg by linarith
  have tot: "acc_totalProcessingTime (tool_entry (events st) k) = of_int (timed_sum g)"
    using tool_entry_fields(4)[OF k] mg nn by (simp add: g_def)
  have cnt: "acc_usageCount (tool_entry (events st) k) = length g"
    using tool_entry_fields(2)[OF k] by (simp add: g_def)
  have "ts_avgProcessingTime s = Math_round (js_div (of_int (timed_sum g)) (of_nat (length g)))"
    using N by (simp add: s to_stat_def tot cnt)
  also have "\<dots> = (2 * timed_sum g + int (length g)) div (2 * int (length g))"
    using N small by (rule round_div_exact)
  also have "\<dots> = round_quotient (timed_sum g) (length g)"
    using N by (simp add: round_quotient_div)
  finally show ?thesis
    by (simp add: g_def k_def usage_count_def)
qed

text \<open>The example scenario: the four \<^verbatim>\<open>pdf-to-word\<close> events carry 300 ms in all.\<close>

theorem avgProcessingTime_over_all_events_witness:
  "\<lparr>ts_name = ''pdf-to-word'', ts_category = ''pdf'', ts_usageCount = 4, ts_successRate = 75,
     ts_avgProcessingTime = 75\<rparr> \<in> set (toolStats (getAnalytics example_storage)) \<and>
   2 * timed_magnitude (events example_storage) < 2 ^ 53 \<and>
   timed_sum (group_of ''pdf-to-word'' (events example_storage)) = 300 \<and>
   usage_count ''pdf-to-word'' (events example_storage) = 4 \<and>
   round_quotient 300 4 = 75"
proof -
  have h1: "\<lparr>ts_name = ''pdf-to-word'', ts_category = ''pdf'', ts_usageCount = 4, ts_successRate = 75,
     ts_avgProcessingTime = 75\<rparr> \<in> set (toolStats (getAnalytics example_storage))"
    by code_simp
  have h2: "2 * timed_magnitude (events example_storage) < 2 ^ 53" by code_simp
  have c1: "timed_sum (group_of ''pdf-to-word'' (events example_storage)) = 300" by code_simp
  have c2: "usage_count ''pdf-to-word'' (events example_storage) = 4" by code_simp
  have "round_quotient 300 4 = 75"
    using avgProcessingTime_over_all_events[OF h1 h2] by (simp add: c1 c2)
  with h1 h2 c1 c2 show ?thesis by (intro conjI)
qed

text \<open>C1 as stated fails in the example scenario of the specification: the mean over the
  three \<^verbatim>\<open>pdf-to-word\<close> events that carry a processing time is 100, and the code returns
  \<open>300 / 4 = 75\<close>.\<close>

theorem avgProcessingTime_example_counterexample:
  "present_times (group_of ''pdf-to-word'' (events example_storage)) = [100, 100, 100] \<and>
   claimed_avgProcessingTime (group_of ''pdf-to-word'' (events example_storage)) = 100 \<and>
   map (\<lambda>s. (ts_name s, ts_usageCount s, ts_avgProcessingTime s)) (toolStats (getAnalytics example_storage))
     = [(''pdf-to-word'', 4, 75), (''merge-pdf'', 1, 200)]"
proof -
  have 1: "present_times (group_of ''pdf-to-word'' (events example_storage)) = [100, 100, 100]"
    by code_simp
  have 2: "claimed_avgProcessingTime (group_of ''pdf-to-word'' (events example_storage)) = 100"
    by code_simp
  have 3: "map (\<lambda>s. (ts_name s, ts_usageCount s, ts_avgProcessingTime s)) (toolStats (getAnalytics example_storage))
     = [(''pdf-to-word'', 4, 75), (''merge-pdf'', 1, 200)]"
    by code_simp
  from 1 2 3 show ?thesis by (intro conjI)
qed

subsection \<open>Users\<close>

lemma find_values_update:
  "find P (map snd al) = None \<Longrightarrow> P v \<Longrightarrow> find P (map snd (AList.update k v al)) = Some v"
  by (induction al) (auto split: if_splits)

lemma values_update_fresh:
  "map_of al k = None \<Longrightarrow> map snd (AList.update k v al) = map snd al @ [v]"
  by (induction al) (auto split: if_splits)

lemma list_all_values_update:
  "list_all Q (map snd al) \<Longrightarrow> Q v \<Longrightarrow> list_all Q (map snd (AList.update k v al))"
  by (induction al) auto

lemma createUser_stores_digests:
  "stores_digests lib st \<Longrightarrow> stores_digests lib (fst (createUser lib st new_id salt now1 now2 input))"
proof -
  assume a: "stores_digests lib st"
  have "is_digest lib (bcrypt_hash lib (iu_password input) 10 salt)"
    unfolding is_digest_def by blast
  then show ?thesis
    using a by (simp add: stores_digests_def createUser_def Let_def values_of_def
        list_all_values_update)
qed

lemma updateUser_stores_digests:
  assumes "stores_digests lib st" and "pu_password updates = None"
  shows "stores_digests lib (fst (updateUser st i updates now))"
proof (cases "map_of (users st) i")
  case None
  then show ?thesis using assms by (simp add: updateUser_def)
next
  case (Some u)
  then have "(i, u) \<in> set (users st)" by (rule map_of_SomeD)
  then have "u \<in> set (map snd (users st))" by force
  then have "is_digest lib (password u)"
    using assms(1) by (auto simp: stores_digests_def values_of_def list_all_iff)
  then have "is_digest lib (password (merge_user u updates now))"
    using assms(2) by (simp add: merge_user_def)
  then show ?thesis
    using Some assms(1)
    by (simp add: updateUser_def Let_def stores_digests_def values_of_def list_all_values_update)
qed

lemma run_user_ops_stores_digests:
  "stores_digests lib st \<Longrightarrow> \<forall>op\<in>set ops. \<not> sets_password op
     \<Longrightarrow> stores_digests lib (run_user_ops lib st ops)"
proof (induction ops arbitrary: st)
  case Nil
  then show ?case by (simp add: run_user_ops_def)
next
  case (Cons op ops)
  have "stores_digests lib (apply_user_op lib st op)"
  proof (cases op)
    case (Create new_id salt now1 now2 input)
    then show ?thesis using Cons.prems(1) by (simp add: createUser_stores_digests)
  next
    case (Update i updates now)
    then show ?thesis using Cons.prems by (simp add: updateUser_stores_digests)
  qed
  then have "stores_digests lib (run_user_ops lib (apply_user_op lib st op) ops)"
    using Cons.IH Cons.prems(2) by simp
  then show ?case by (simp add: run_user_ops_def)
qed

text \<open>
  C2, as the code has it. \<^verbatim>\<open>createUser\<close> has no uniqueness check and no failure: it always
  stores the new user under the identifier it drew and returns it; the records stored
  under other identifiers are unchanged, and under a fresh identifier the new user is
  appended after them. It is the \<^verbatim>\<open>register\<close> route that rejects an input whose email is
  already stored (status 409), before \<^verbatim>\<open>createUser\<close> is called and leaving the store as it
  is.
\<close>

theorem createUser_always_stores:
  assumes "createUser lib st new_id salt now1 now2 input = (st', user)"
  shows "getUser st' new_id = Some user \<and>
         email user = iu_email input \<and> username user = iu_username input \<and>
         (\<forall>i. i \<noteq> new_id \<longrightarrow> getUser st' i = getUser st i) \<and>
         (getUser st new_id = None \<longrightarrow> values_of (users st') = values_of (users st) @ [user]) \<and>
         (getUserByEmail st (iu_email input) \<noteq> None \<longrightarrow>
            register_route lib st new_id salt now1 now2 input = (st, Status 409 ''User already exists''))"
proof -
  have st': "users st' = AList.update new_id user (users st)"
    using assms by (auto simp: createUser_def Let_def)
  have u: "email user = iu_email input" "username user = iu_username input"
    using assms by (auto simp: createUser_def Let_def)
  have 1: "getUser st' new_id = Some user"
    by (simp add: getUser_def st' update_conv')
  have 2: "\<forall>i. i \<noteq> new_id \<longrightarrow> getUser st' i = getUser st i"
    by (simp add: getUser_def st' update_conv')
  have 3: "getUser st new_id = None \<longrightarrow> values_of (users st') = values_of (users st) @ [user]"
    by (simp add: getUser_def st' values_of_def values_update_fresh)
  have 4: "getUserByEmail st (iu_email input) \<noteq> None \<longrightarrow>
            register_route lib st new_id salt now1 now2 input = (st, Status 409 ''User already exists'')"
    by (auto simp: register_route_def)
  from 1 u 2 3 4 show ?thesis by (intro conjI)
qed

text \<open>Registering \<open>alice\<close> a second time: the route answers 409; \<^verbatim>\<open>createUser\<close> called
  directly leaves the first record as it is.\<close>

theorem createUser_always_stores_witness:
  "createUser ideal_bcrypt one_user_storage ''id-2'' 4 2000 2000 alice
     = (fst (createUser ideal_bcrypt one_user_storage ''id-2'' 4 2000 2000 alice),
        snd (createUser ideal_bcrypt one_user_storage ''id-2'' 4 2000 2000 alice)) \<and>
   getUser (fst (createUser ideal_bcrypt one_user_storage ''id-2'' 4 2000 2000 alice)) ''id-1''
     = getUser one_user_storage ''id-1'' \<and>
   register_route ideal_bcrypt one_user_storage ''id-2'' 4 2000 2000 alice
     = (one_user_storage, Status 409 ''User already exists'')"
proof -
  have h: "createUser ideal_bcrypt one_user_storage ''id-2'' 4 2000 2000 alice
     = (fst (createUser ideal_bcrypt one_user_storage ''id-2'' 4 2000 2000 alice),
        snd (createUser ideal_bcrypt one_user_storage ''id-2'' 4 2000 2000 alice))" by simp
  have e: "getUserByEmail one_user_storage (iu_email alice) \<noteq> None" by code_simp
  have n: "''id-1'' \<noteq> ''id-2''" by simp
  note t = createUser_always_stores[OF h]
  have a: "getUser (fst (createUser ideal_bcrypt one_user_storage ''id-2'' 4 2000 2000 alice)) ''id-1''
             = getUser one_user_storage ''id-1''"
    using t[THEN conjunct2, THEN conjunct2, THEN conjunct2, THEN conjunct1, rule_format, OF n] .
  have r: "register_route ideal_bcrypt one_user_storage ''id-2'' 4 2000 2000 alice
             = (one_user_storage, Status 409 ''User already exists'')"
    using t[THEN conjunct2, THEN conjunct2, THEN conjunct2, THEN conjunct2, THEN conjunct2] e
    by (rule mp)
  from h a r show ?thesis by (intro conjI)
qed

text \<open>C2 as stated fails: in a store that holds \<open>alice\<close>, \<^verbatim>\<open>createUser\<close> with the same email
  and username returns a second user and stores it.\<close>

theorem createUser_duplicate_counterexample:
  "getUserByEmail one_user_storage (iu_email alice) \<noteq> None \<and>
   getUserByUsername one_user_storage (iu_username alice) \<noteq> None \<and>
   map email (values_of (users (fst (createUser ideal_bcrypt one_user_storage ''id-2'' 4 2000 2000 alice))))
     = [''alice@example.com'', ''alice@example.com''] \<and>
   getUser (fst (createUser ideal_bcrypt one_user_storage ''id-2'' 4 2000 2000 alice)) ''id-2''
     = Some (snd (createUser ideal_bcrypt one_user_storage ''id-2'' 4 2000 2000 alice))"
  by code_simp

text \<open>
  C3, as the code has it. \<^verbatim>\<open>updateUser\<close> stores the password that the updates carry as it
  is, and keeps the stored password when they carry none. So from a store whose passwords
  are all digests, every sequence of \<^verbatim>\<open>createUser\<close> calls and of \<^verbatim>\<open>updateUser\<close> calls without a
  password field leads to such a store, and so does the \<^verbatim>\<open>profile\<close> route, which passes
  \<^verbatim>\<open>username\<close> and \<^verbatim>\<open>email\<close> only.
\<close>

theorem updateUser_keeps_digests:
  assumes "stores_digests lib st"
    and "\<forall>op\<in>set ops. \<not> sets_password op"
    and "getUser st i = Some u"
  shows "(\<exists>u'. getUser (fst (updateUser st i updates now)) i = Some u' \<and>
               snd (updateUser st i updates now) = Some u' \<and>
               password u' = (case pu_password updates of Some p \<Rightarrow> p | None \<Rightarrow> password u)) \<and>
         stores_digests lib (run_user_ops lib st ops) \<and>
         stores_digests lib (fst (profile_route st header body_username body_email now))"
proof -
  have 1: "\<exists>u'. getUser (fst (updateUser st i updates now)) i = Some u' \<and>
               snd (updateUser st i updates now) = Some u' \<and>
               password u' = (case pu_password updates of Some p \<Rightarrow> p | None \<Rightarrow> password u)"
    using assms(3)
    by (simp add: getUser_def updateUser_def Let_def update_conv' merge_user_def)
  have 2: "stores_digests lib (run_user_ops lib st ops)"
    using assms(1,2) by (rule run_user_ops_stores_digests)
  have "stores_digests lib
          (fst (updateUser st uid \<lparr>pu_id = None, pu_username = body_username, pu_email = body_email,
                     pu_password = None, pu_role = None, pu_createdAt = None, pu_updatedAt = None\<rparr> now))" for uid
    using assms(1) by (intro updateUser_stores_digests) simp_all
  note upd = this
  have 3: "stores_digests lib (fst (profile_route st header body_username body_email now))"
  proof (cases header)
    case None
    then show ?thesis using assms(1) by (simp add: profile_route_def)
  next
    case (Some uid)
    show ?thesis
    proof (cases "uid = []")
      case True
      then show ?thesis using Some assms(1) by (simp add: profile_route_def)
    next
      case False
      obtain st1 r where r: "updateUser st uid \<lparr>pu_id = None, pu_username = body_username,
           pu_email = body_email, pu_password = None, pu_role = None, pu_createdAt = None,
           pu_updatedAt = None\<rparr> now = (st1, r)"
        by (cases "updateUser st uid \<lparr>pu_id = None, pu_username = body_username,
           pu_email = body_email, pu_password = None, pu_role = None, pu_createdAt = None,
           pu_updatedAt = None\<rparr> now")
      have "stores_digests lib st1" using upd[of uid] by (simp add: r)
      then show ?thesis
        using Some False r by (cases r) (simp_all add: profile_route_def)
    qed
  qed
  from 1 2 3 show ?thesis by (intro conjI)
qed

text \<open>From the store that holds \<open>alice\<close>: a second registration followed by a change of
  user name, and the profile route.\<close>

theorem updateUser_keeps_digests_witness:
  "stores_digests ideal_bcrypt one_user_storage \<and>
   getUser one_user_storage ''id-1'' = Some (snd (createUser ideal_bcrypt empty_storage ''id-1'' 3 1000 1000 alice)) \<and>
   stores_digests ideal_bcrypt
     (run_user_ops ideal_bcrypt one_user_storage
        [Create ''id-2'' 5 2000 2000 (alice\<lparr>iu_username := ''bob'', iu_email := ''bob@example.com''\<rparr>),
         Update ''id-1'' (no_updates\<lparr>pu_username := Some ''alice2''\<rparr>) 3000]) \<and>
   stores_digests ideal_bcrypt
     (fst (profile_route one_user_storage (Some ''id-1'') (Some ''al'') None 3000))"
proof -
  have "stores_digests ideal_bcrypt empty_storage"
    by (simp add: stores_digests_def empty_storage_def values_of_def)
  then have h1: "stores_digests ideal_bcrypt one_user_storage"
    unfolding one_user_storage_def by (rule createUser_stores_digests)
  have h2: "\<forall>op\<in>set [Create ''id-2'' 5 2000 2000 (alice\<lparr>iu_username := ''bob'', iu_email := ''bob@example.com''\<rparr>),
         Update ''id-1'' (no_updates\<lparr>pu_username := Some ''alice2''\<rparr>) 3000]. \<not> sets_password op"
    by (simp add: no_updates_def)
  have h3: "getUser one_user_storage ''id-1''
              = Some (snd (createUser ideal_bcrypt empty_storage ''id-1'' 3 1000 1000 alice))"
    by code_simp
  note t = updateUser_keeps_digests[OF h1 h2 h3, of no_updates 3000 "Some ''id-1''" "Some ''al''" None,
      THEN conjunct2]
  from h1 h3 t[THEN conjunct1] t[THEN conjunct2] show ?thesis by (intro conjI)
qed

text \<open>C3 as stated fails: \<^verbatim>\<open>updateUser\<close> with the updates \<^verbatim>\<open>{password: "hunter2"}\<close> stores that
  plaintext, which is not a digest.\<close>

theorem updateUser_plaintext_counterexample:
  "map password (values_of (users (fst (updateUser one_user_storage ''id-1''
       (no_updates\<lparr>pu_password := Some ''hunter2''\<rparr>) 2000)))) = [''hunter2''] \<and>
   \<not> stores_digests ideal_bcrypt (fst (updateUser one_user_storage ''id-1''
       (no_updates\<lparr>pu_password := Some ''hunter2''\<rparr>) 2000))"
proof -
  have v: "map password (values_of (users (fst (updateUser one_user_storage ''id-1''
       (no_updates\<lparr>pu_password := Some ''hunter2''\<rparr>) 2000)))) = [''hunter2'']"
    by code_simp
  have "CHR ''$'' \<in> set (bcrypt_hash ideal_bcrypt p 10 salt)" for p salt
    by (simp add: ideal_bcrypt_def)
  moreover have "CHR ''$'' \<notin> set ''hunter2''" by simp
  ultimately have "\<not> is_digest ideal_bcrypt ''hunter2''"
    unfolding is_digest_def by metis
  then have "\<not> list_all (is_digest ideal_bcrypt) (map password (values_of (users (fst (updateUser one_user_storage ''id-1''
       (no_updates\<lparr>pu_password := Some ''hunter2''\<rparr>) 2000)))))"
    unfolding v by simp
  then have "\<not> stores_digests ideal_bcrypt (fst (updateUser one_user_storage ''id-1''
       (no_updates\<lparr>pu_password := Some ''hunter2''\<rparr>) 2000))"
    by (simp add: stores_digests_def list_all_iff)
  with v show ?thesis by (intro conjI)
qed

lemma truncating_bcrypt_accepts_own: "bcrypt_accepts_own truncating_bcrypt"
proof -
  have "dropWhile (\<lambda>c. c = CHR ''s'') (replicate n (CHR ''s'') @ CHR ''$'' # p) = CHR ''$'' # p" for n p
    by (induction n) simp_all
  then show ?thesis
    by (simp add: bcrypt_accepts_own_def truncating_bcrypt_def)
qed

text \<open>
  C8, as the code has it. Let \<^verbatim>\<open>bcrypt.compare\<close> accept the plaintext a digest was made from.
  For every user that \<^verbatim>\<open>createUser\<close> creates in a store that holds no user with the same
  email (what the \<^verbatim>\<open>register\<close> route ensures), \<^verbatim>\<open>authenticateUser\<close> with the user's email and
  plaintext password returns that user; with the email and any plaintext it returns that
  user when \<^verbatim>\<open>bcrypt.compare\<close> accepts the plaintext for the digest of the user's password,
  and the not-authenticated signal when it does not; and it returns the
  not-authenticated signal for an email that no stored user has.
\<close>

theorem authenticate_created_user:
  assumes "bcrypt_accepts_own lib"
    and "getUserByEmail st (iu_email input) = None"
    and "createUser lib st new_id salt now1 now2 input = (st', user)"
  shows "authenticateUser lib st' (iu_email input) (iu_password input) = Some user \<and>
         (\<forall>pw. authenticateUser lib st' (iu_email input) pw =
                 (if bcrypt_compare lib pw (bcrypt_hash lib (iu_password input) 10 salt)
                  then Some user else None)) \<and>
         (\<forall>pw. \<not> bcrypt_compare lib pw (bcrypt_hash lib (iu_password input) 10 salt) \<longrightarrow>
                 authenticateUser lib st' (iu_email input) pw = None) \<and>
         (\<forall>e pw. getUserByEmail st' e = None \<longrightarrow> authenticateUser lib st' e pw = None)"
proof -
  have st': "users st' = AList.update new_id user (users st)"
    and u: "email user = iu_email input"
           "password user = bcrypt_hash lib (iu_password input) 10 salt"
    using assms(3) by (auto simp: createUser_def Let_def)
  have "find (\<lambda>user. email user = iu_email input) (map snd (AList.update new_id user (users st))) = Some user"
    using assms(2) u(1) by (intro find_values_update) (simp_all add: getUserByEmail_def values_of_def)
  then have f: "getUserByEmail st' (iu_email input) = Some user"
    by (simp add: getUserByEmail_def values_of_def st')
  have c: "bcrypt_compare lib (iu_password input) (bcrypt_hash lib (iu_password input) 10 salt)"
    using assms(1) by (simp add: bcrypt_accepts_own_def)
  show ?thesis
    by (simp add: authenticateUser_def f c u(2))
qed

text \<open>\<open>carol\<close> in the store that was empty before: her password is accepted, the password
  \<^verbatim>\<open>wrong\<close> is not, and nobody has the email of \<open>alice\<close>.\<close>

theorem authenticate_created_user_witness:
  "bcrypt_accepts_own truncating_bcrypt \<and>
   getUserByEmail empty_storage (iu_email carol) = None \<and>
   authenticateUser truncating_bcrypt carol_storage (iu_email carol) (iu_password carol)
     = Some (snd (createUser truncating_bcrypt empty_storage ''id-3'' 7 1000 1000 carol)) \<and>
   authenticateUser truncating_bcrypt carol_storage (iu_email carol) ''wrong'' = None \<and>
   authenticateUser truncating_bcrypt carol_storage ''alice@example.com'' (iu_password carol) = None"
proof -
  have h2: "getUserByEmail empty_storage (iu_email carol) = None" by code_simp
  have h3: "createUser truncating_bcrypt empty_storage ''id-3'' 7 1000 1000 carol
              = (carol_storage, snd (createUser truncating_bcrypt empty_storage ''id-3'' 7 1000 1000 carol))"
    by (simp add: carol_storage_def)
  have n: "\<not> bcrypt_compare truncating_bcrypt ''wrong''
               (bcrypt_hash truncating_bcrypt (iu_password carol) 10 7)"
    by code_simp
  have b: "getUserByEmail carol_storage ''alice@example.com'' = None" by code_simp
  note t = authenticate_created_user[OF truncating_bcrypt_accepts_own h2 h3]
  have a1: "authenticateUser truncating_bcrypt carol_storage (iu_email carol) (iu_password carol)
              = Some (snd (createUser truncating_bcrypt empty_storage ''id-3'' 7 1000 1000 carol))"
    using t by (rule conjunct1)
  have a2: "authenticateUser truncating_bcrypt carol_storage (iu_email carol) ''wrong'' = None"
    using t[THEN conjunct2, THEN conjunct2, THEN conjunct1, rule_format, OF n] .
  have a3: "authenticateUser truncating_bcrypt carol_storage ''alice@example.com'' (iu_password carol) = None"
    using t[THEN conjunct2, THEN conjunct2, THEN conjunct2, rule_format, OF b] .
  from truncating_bcrypt_accepts_own h2 a1 a2 a3 show ?thesis by (intro conjI)
qed

text \<open>C8 as stated fails in two ways. A plaintext other than the password is accepted when
  it has the same first 72 bytes: \<open>carol\<close> is authenticated with \<open>other_long_password\<close>. And
  where the email is already stored, the created user is not the one found: a second
  user created with the email of \<open>carol\<close> and the password \<^verbatim>\<open>other\<close> is stored, and cannot
  authenticate with it, because \<^verbatim>\<open>getUserByEmail\<close> finds \<open>carol\<close> first.\<close>

theorem authenticate_other_plaintext_counterexample:
  "other_long_password \<noteq> iu_password carol \<and>
   authenticateUser truncating_bcrypt carol_storage (iu_email carol) other_long_password
     = Some (snd (createUser truncating_bcrypt empty_storage ''id-3'' 7 1000 1000 carol)) \<and>
   getUser (fst (createUser truncating_bcrypt carol_storage ''id-4'' 8 2000 2000
                   (carol\<lparr>iu_username := ''dave'', iu_password := ''other''\<rparr>))) ''id-4''
     = Some (snd (createUser truncating_bcrypt carol_storage ''id-4'' 8 2000 2000
                   (carol\<lparr>iu_username := ''dave'', iu_password := ''other''\<rparr>))) \<and>
   authenticateUser truncating_bcrypt
     (fst (createUser truncating_bcrypt carol_storage ''id-4'' 8 2000 2000
             (carol\<lparr>iu_username := ''dave'', iu_password := ''other''\<rparr>)))
     (iu_email carol) ''other'' = None"
proof -
  have 1: "other_long_password \<noteq> iu_password carol" by code_simp
  have 2: "authenticateUser truncating_bcrypt carol_storage (iu_email carol) other_long_password
     = Some (snd (createUser truncating_bcrypt empty_storage ''id-3'' 7 1000 1000 carol))"
    by code_simp
  have 3: "getUser (fst (createUser truncating_bcrypt carol_storage ''id-4'' 8 2000 2000
                   (carol\<lparr>iu_username := ''dave'', iu_password := ''other''\<rparr>))) ''id-4''
     = Some (snd (createUser truncating_bcrypt carol_storage ''id-4'' 8 2000 2000
                   (carol\<lparr>iu_username := ''dave'', iu_password := ''other''\<rparr>)))"
    by code_simp
  have 4: "authenticateUser truncating_bcrypt
     (fst (createUser truncating_bcrypt carol_storage ''id-4'' 8 2000 2000
             (carol\<lparr>iu_username := ''dave'', iu_password := ''other''\<rparr>)))
     (iu_email carol) ''other'' = None"
    by code_simp
  from 1 2 3 4 show ?thesis by (intro conjI)
qed

end
